theory Spec2Isabelle
  imports Main "HOL-Library.Word"
begin

section \<open>The TDP MMU of arch/x86/kvm/mmu/tdp\_mmu.c\<close>

text \<open>
  A shallow embedding of the two-dimensional paging manager. Shadow page table entries
  (SPTEs), guest frame numbers and host frame numbers are 64-bit machine words. Page
  tables live in a store of 64-bit cells; a pointer \<open>u64 *\<close> is the index of a cell and
  \<open>pt + i\<close> is pointer arithmetic in units of one entry.
\<close>

type_synonym u64 = "64 word"
type_synonym gfn_t = u64
type_synonym kvm_pfn_t = u64
type_synonym ptr = nat

subsection \<open>The entry codec and the architecture constants\<close>

text \<open>
  The functions of spte.h and the macros of mmu.h that tdp\_mmu.c calls are not part of
  the sources at hand. Every operation below takes them as a parameter: one record
  holding the predicates on entries, the two projections of an entry (its frame number
  and the table it points to) and the constants.
\<close>

record arch =
  is_mmio_spte :: "u64 \<Rightarrow> bool"
  is_shadow_present_pte :: "u64 \<Rightarrow> bool"
  is_last_spte :: "u64 \<Rightarrow> int \<Rightarrow> bool"
  is_large_pte :: "u64 \<Rightarrow> bool"
  is_dirty_spte :: "u64 \<Rightarrow> bool"
  spte_to_pfn :: "u64 \<Rightarrow> kvm_pfn_t"
  spte_to_child_pt :: "u64 \<Rightarrow> int \<Rightarrow> ptr"
  KVM_PAGES_PER_HPAGE :: "int \<Rightarrow> u64"
  PT64_ENT_PER_PAGE :: nat
  PT64_ROOT_MAX_LEVEL :: int
  PG_LEVEL_4K :: int
  ACC_ALL :: "3 word"

subsection \<open>State and effects\<close>

text \<open>
  Calls into the rest of the kernel are recorded, in order, in a trace:
  \<open>kvm_set_pfn_dirty\<close>, \<open>kvm_flush_remote_tlbs_with_address\<close>, \<open>kvm_flush_remote_tlbs\<close>,
  \<open>free_page\<close>, \<open>kmem_cache_free\<close> and
  \<open>kvm_make_request(KVM_REQ_TLB_FLUSH_CURRENT)\<close>. The newest event is the last element.
\<close>

datatype event =
    SetPfnDirty kvm_pfn_t
  | FlushRange gfn_t u64
  | FlushAll
  | FreePage ptr
  | KmemCacheFree ptr
  | RequestTlbFlushCurrent

text \<open>
  \<open>union kvm_mmu_page_role\<close>: the bit fields that tdp\_mmu.c reads or writes, and the
  remaining bits of the word. Two roles have the same \<open>word\<close> exactly when all fields
  agree. \<open>level\<close> is a 4-bit field and \<open>access\<close> a 3-bit field.
\<close>

record kvm_mmu_page_role =
  role_level :: "4 word"
  role_direct :: bool
  role_gpte_is_8_bytes :: bool
  role_access :: "3 word"
  role_smm :: bool
  role_other :: "32 word"

record kvm_mmu_page =
  role :: kvm_mmu_page_role
  sp_gfn :: gfn_t
  spt :: ptr
  root_count :: int
  tdp_mmu_page :: bool

text \<open>
  A \<open>struct kvm_mmu_page\<close> that is not a root is identified with the address of its
  table \<open>spt\<close> (\<open>sptep_to_sp\<close> and \<open>set_page_private\<close> keep that correspondence), so
  the list \<open>tdp_mmu_pages\<close> is a list of table addresses. \<open>tdp_mmu_roots\<close> is the list
  of roots, head first. \<open>warnings\<close> counts the \<open>WARN_ON\<close> and \<open>pr_err\<close> lines that
  fired. \<open>resched\<close> holds the answers that
  \<open>need_resched() || spin_needbreak(&kvm->mmu_lock)\<close> is going to give, in order; once the
  list is used up the answer is "no".
\<close>

record kvm =
  mem :: "ptr \<Rightarrow> u64"
  tdp_mmu_roots :: "kvm_mmu_page list"
  tdp_mmu_pages :: "ptr list"
  trace :: "event list"
  warnings :: nat
  resched :: "bool list"

text \<open>
  \<open>BUG()\<close> stops the machine: the outcome \<open>Bug\<close> carries the state at the crash.
  \<open>OutOfFuel\<close> stands for a teardown recursion that did not come to an end within the
  given number of nested calls.
\<close>

datatype outcome = Done kvm | Bug kvm | OutOfFuel

definition emit :: "event \<Rightarrow> kvm \<Rightarrow> kvm" where
  "emit e s = s\<lparr>trace := trace s @ [e]\<rparr>"

definition WARN_ON :: "bool \<Rightarrow> kvm \<Rightarrow> kvm" where
  "WARN_ON b s = (if b then s\<lparr>warnings := Suc (warnings s)\<rparr> else s)"

definition pr_err :: "kvm \<Rightarrow> kvm" where
  "pr_err s = s\<lparr>warnings := Suc (warnings s)\<rparr>"

definition list_del :: "ptr \<Rightarrow> kvm \<Rightarrow> kvm" where
  "list_del sp s = s\<lparr>tdp_mmu_pages := remove1 sp (tdp_mmu_pages s)\<rparr>"

definition write_spte :: "ptr \<Rightarrow> u64 \<Rightarrow> kvm \<Rightarrow> kvm" where
  "write_spte p v s = s\<lparr>mem := (mem s)(p := v)\<rparr>"

subsection \<open>The mutation engine: \<open>__handle_changed_spte\<close>\<close>

text \<open>The \<open>for\<close> loop over the entries of a table; it stops at the first crash.\<close>

fun for_each_index :: "(kvm \<Rightarrow> nat \<Rightarrow> outcome) \<Rightarrow> nat list \<Rightarrow> kvm \<Rightarrow> outcome" where
  "for_each_index body [] s = Done s"
| "for_each_index body (i # is) s =
     (case body s i of Done s' \<Rightarrow> for_each_index body is s' | Bug s' \<Rightarrow> Bug s' | OutOfFuel \<Rightarrow> OutOfFuel)"

text \<open>
  \<open>__handle_changed_spte(kvm, as_id, gfn, old_spte, new_spte, level)\<close>. The first
  argument after the codec bounds the depth of the recursion into child tables; the part
  of the function that does not recurse needs no fuel.
\<close>

fun handle_changed_spte ::
  "arch \<Rightarrow> nat \<Rightarrow> kvm \<Rightarrow> int \<Rightarrow> gfn_t \<Rightarrow> u64 \<Rightarrow> u64 \<Rightarrow> int \<Rightarrow> outcome" where
  "handle_changed_spte a fuel s as_id gfn old_spte new_spte level =
    (let was_present = is_shadow_present_pte a old_spte;
         is_present = is_shadow_present_pte a new_spte;
         was_leaf = (was_present \<and> is_last_spte a old_spte level);
         is_leaf = (is_present \<and> is_last_spte a new_spte level);
         pfn_changed = (spte_to_pfn a old_spte \<noteq> spte_to_pfn a new_spte);
         s1 = WARN_ON (level > PT64_ROOT_MAX_LEVEL a) s;
         s2 = WARN_ON (level < PG_LEVEL_4K a) s1;
         s3 = WARN_ON (gfn mod KVM_PAGES_PER_HPAGE a level \<noteq> 0) s2
     in if was_leaf \<and> is_leaf \<and> pfn_changed then Bug (pr_err s3)
        else if old_spte = new_spte then Done s3
        else if \<not> was_present \<and> \<not> is_present then
          Done (if \<not> is_mmio_spte a old_spte \<and> \<not> is_mmio_spte a new_spte
                then pr_err (WARN_ON True s3) else s3)
        else
          let s4 = (if was_leaf \<and> is_dirty_spte a old_spte \<and>
                       (\<not> is_dirty_spte a new_spte \<or> pfn_changed)
                    then emit (SetPfnDirty (spte_to_pfn a old_spte)) s3 else s3)
          in if was_present \<and> \<not> was_leaf \<and> (pfn_changed \<or> \<not> is_present) then
               (case fuel of
                  0 \<Rightarrow> OutOfFuel
                | Suc f \<Rightarrow>
                   let pt = spte_to_child_pt a old_spte level;
                       s5 = list_del pt s4
                   in (case for_each_index
                             (\<lambda>t i. handle_changed_spte a f (write_spte (pt + i) 0 t) as_id
                                       (gfn + of_nat i * KVM_PAGES_PER_HPAGE a (level - 1))
                                       (mem t (pt + i)) 0 (level - 1))
                             [0..<PT64_ENT_PER_PAGE a] s5 of
                         Done s6 \<Rightarrow>
                           Done (emit (KmemCacheFree pt) (emit (FreePage pt)
                                   (emit (FlushRange gfn (KVM_PAGES_PER_HPAGE a level)) s6)))
                       | Bug s6 \<Rightarrow> Bug s6
                       | OutOfFuel \<Rightarrow> OutOfFuel))
             else Done s4)"

declare handle_changed_spte.simps [simp del]

subsection \<open>The iterator position and \<open>tdp_mmu_set_spte\<close>\<close>

text \<open>
  \<open>struct tdp_iter\<close>: the frame the walk is heading for, the tables on the path from the
  root (\<open>pt_path l\<close> is the table of level \<open>l + 1\<close>), the address of the current entry,
  the guest frame it maps, the level of the root, the lowest level to visit, the current
  level, the value read from the entry, and whether the walk is still inside the tree.
  \<open>root_as_id\<close> is \<open>kvm_mmu_page_as_id\<close> of the root, which \<open>tdp_mmu_set_spte\<close>
  computes from \<open>tdp_iter_root_pt\<close>.
\<close>

record tdp_iter =
  goal_gfn :: gfn_t
  pt_path :: "int \<Rightarrow> ptr"
  sptep :: ptr
  gfn :: gfn_t
  root_level :: int
  min_level :: int
  level :: int
  old_spte :: u64
  valid :: bool
  root_as_id :: int

definition tdp_mmu_set_spte :: "arch \<Rightarrow> nat \<Rightarrow> kvm \<Rightarrow> tdp_iter \<Rightarrow> u64 \<Rightarrow> outcome" where
  "tdp_mmu_set_spte a fuel s iter new_spte =
     handle_changed_spte a fuel (write_spte (sptep iter) new_spte s) (root_as_id iter)
       (gfn iter) (old_spte iter) new_spte (level iter)"

subsection \<open>A sample instance of the codec\<close>

text \<open>
  An instance of the parameters, for evaluating the operations on concrete inputs: bit 0
  is "present", bit 7 "large page", bit 9 "dirty", bit 62 marks the special (MMIO)
  encoding, bits 12 to 51 hold the frame number. A table has four entries, so that a
  level-\<open>l\<close> entry covers \<open>4 ^ (l - 1)\<close> frames, and the table of frame \<open>f\<close> occupies the
  cells \<open>4 * f\<close> to \<open>4 * f + 3\<close>.
\<close>

unbundle bit_operations_syntax

definition sample_mmio :: "u64 \<Rightarrow> bool" where
  "sample_mmio pte = bit pte 62"

definition sample_pfn :: "u64 \<Rightarrow> kvm_pfn_t" where
  "sample_pfn pte = drop_bit 12 (pte AND 0xFFFFFFFFFF000)"

definition sample_arch :: arch where
  "sample_arch = \<lparr>
     is_mmio_spte = sample_mmio,
     is_shadow_present_pte = (\<lambda>pte. pte \<noteq> 0 \<and> \<not> sample_mmio pte),
     is_last_spte = (\<lambda>pte l. l = 1 \<or> bit pte 7),
     is_large_pte = (\<lambda>pte. bit pte 7),
     is_dirty_spte = (\<lambda>pte. bit pte 9),
     spte_to_pfn = sample_pfn,
     spte_to_child_pt = (\<lambda>pte l. 4 * unat (sample_pfn pte)),
     KVM_PAGES_PER_HPAGE = (\<lambda>l. 4 ^ nat (l - 1)),
     PT64_ENT_PER_PAGE = 4,
     PT64_ROOT_MAX_LEVEL = 5,
     PG_LEVEL_4K = 1,
     ACC_ALL = 7 \<rparr>"

definition empty_kvm :: kvm where
  "empty_kvm = \<lparr> mem = (\<lambda>_. 0), tdp_mmu_roots = [], tdp_mmu_pages = [], trace = [], warnings = 0,
     resched = [] \<rparr>"

subsection \<open>Comparing the effects of two runs\<close>

text \<open>
  \<open>emitted s t\<close> is what a run from \<open>s\<close> to \<open>t\<close> appended to the trace. Two runs, from
  \<open>s1\<close> and from \<open>s2\<close>, have the same effects when they end the same way, appended the
  same events and left the same table memory.
\<close>

definition emitted :: "kvm \<Rightarrow> kvm \<Rightarrow> event list" where
  "emitted s t = drop (length (trace s)) (trace t)"

definition same_run :: "kvm \<Rightarrow> kvm \<Rightarrow> kvm \<Rightarrow> kvm \<Rightarrow> bool" where
  "same_run s1 s2 t1 t2 =
     (mem t1 = mem t2 \<and> trace t1 = trace s1 @ emitted s1 t1 \<and>
      trace t2 = trace s2 @ emitted s1 t1)"

definition same_effects :: "kvm \<Rightarrow> kvm \<Rightarrow> outcome \<Rightarrow> outcome \<Rightarrow> bool" where
  "same_effects s1 s2 r1 r2 =
     (case (r1, r2) of
        (Done t1, Done t2) \<Rightarrow> same_run s1 s2 t1 t2
      | (Bug t1, Bug t2) \<Rightarrow> same_run s1 s2 t1 t2
      | (OutOfFuel, OutOfFuel) \<Rightarrow> True
      | _ \<Rightarrow> False)"

subsection \<open>The root registry: \<open>get_tdp_mmu_vcpu_root\<close>\<close>

text \<open>
  The part of \<open>struct kvm_vcpu\<close> that tdp\_mmu.c uses: the base role, the root level
  and the root address of its MMU, the 64-bit counter \<open>stat.pf_fixed\<close> (\<open>++\<close> wraps
  around), and its two object caches, each a list of the addresses that were put aside for it.
\<close>

record kvm_vcpu =
  mmu_role_base :: kvm_mmu_page_role
  shadow_root_level :: int
  root_hpa :: u64
  pf_fixed :: u64
  mmu_page_header_cache :: "ptr list"
  mmu_shadow_page_cache :: "ptr list"

definition page_role_for_level :: "arch \<Rightarrow> kvm_vcpu \<Rightarrow> int \<Rightarrow> kvm_mmu_page_role" where
  "page_role_for_level a vcpu lvl =
     (mmu_role_base vcpu)\<lparr> role_level := word_of_int lvl, role_direct := True,
        role_gpte_is_8_bytes := True, role_access := ACC_ALL a \<rparr>"

text \<open>
  Modelled from the spec: \<open>kvm_mmu_memory_cache_alloc\<close> (kvm\_main.c) is missing. It
  hands out the next object of the cache ("allocate a zeroed page"); a cache with nothing
  left yields no object.
\<close>

fun kvm_mmu_memory_cache_alloc :: "ptr list \<Rightarrow> (ptr \<times> ptr list) option" where
  "kvm_mmu_memory_cache_alloc [] = None"
| "kvm_mmu_memory_cache_alloc (p # ps) = Some (p, ps)"

text \<open>
  \<open>alloc_tdp_mmu_page(vcpu, gfn, level)\<close>: \<open>None\<close> when one of the two caches is used up.
\<close>

definition alloc_tdp_mmu_page ::
  "arch \<Rightarrow> kvm_vcpu \<Rightarrow> gfn_t \<Rightarrow> int \<Rightarrow> (kvm_mmu_page \<times> kvm_vcpu) option" where
  "alloc_tdp_mmu_page a vcpu g lvl =
     (case kvm_mmu_memory_cache_alloc (mmu_page_header_cache vcpu) of
        None \<Rightarrow> None
      | Some (hdr, hs) \<Rightarrow>
         (case kvm_mmu_memory_cache_alloc (mmu_shadow_page_cache vcpu) of
            None \<Rightarrow> None
          | Some (tbl, ts) \<Rightarrow>
              Some (\<lparr> role = page_role_for_level a vcpu lvl, sp_gfn = g, spt = tbl,
                      root_count = 0, tdp_mmu_page = True \<rparr>,
                    vcpu\<lparr> mmu_page_header_cache := hs, mmu_shadow_page_cache := ts \<rparr>)))"

text \<open>
  Modelled from the spec: \<open>kvm_mmu_get_root\<close> and \<open>kvm_mmu_put_root\<close> (mmu\_internal.h)
  are missing. The first increments the reference count of a root, the second decrements
  it.
\<close>

definition kvm_mmu_get_root :: "kvm_mmu_page \<Rightarrow> kvm_mmu_page" where
  "kvm_mmu_get_root sp = sp\<lparr> root_count := root_count sp + 1 \<rparr>"

definition kvm_mmu_put_root :: "kvm_mmu_page \<Rightarrow> kvm_mmu_page" where
  "kvm_mmu_put_root sp = sp\<lparr> root_count := root_count sp - 1 \<rparr>"

text \<open>
  The loop \<open>for_each_tdp_mmu_root\<close> of \<open>get_tdp_mmu_vcpu_root\<close>: the first root of the
  list whose role word equals \<open>rl\<close> gets one more reference; the result is that root and
  the list with the root updated in place, or \<open>None\<close> when no root has the role.
\<close>

fun scan_roots ::
  "kvm_mmu_page_role \<Rightarrow> kvm_mmu_page list \<Rightarrow> (kvm_mmu_page \<times> kvm_mmu_page list) option" where
  "scan_roots rl [] = None"
| "scan_roots rl (r # rs) =
     (if role r = rl then Some (kvm_mmu_get_root r, kvm_mmu_get_root r # rs)
      else (case scan_roots rl rs of None \<Rightarrow> None | Some (x, rs') \<Rightarrow> Some (x, r # rs')))"

text \<open>
  \<open>get_tdp_mmu_vcpu_root(vcpu)\<close>, the body between \<open>spin_lock\<close> and \<open>spin_unlock\<close>:
  the root returned, the vcpu (its caches) and the VM afterwards. \<open>None\<close> is the case
  of a used-up cache.
\<close>

definition get_tdp_mmu_vcpu_root ::
  "arch \<Rightarrow> kvm_vcpu \<Rightarrow> kvm \<Rightarrow> (kvm_mmu_page \<times> kvm_vcpu \<times> kvm) option" where
  "get_tdp_mmu_vcpu_root a vcpu k =
     (let rl = page_role_for_level a vcpu (shadow_root_level vcpu) in
      case scan_roots rl (tdp_mmu_roots k) of
        Some (root, roots') \<Rightarrow> Some (root, vcpu, k\<lparr> tdp_mmu_roots := roots' \<rparr>)
      | None \<Rightarrow>
         (case alloc_tdp_mmu_page a vcpu 0 (shadow_root_level vcpu) of
            None \<Rightarrow> None
          | Some (sp, vcpu') \<Rightarrow>
              let root = sp\<lparr> root_count := 1 \<rparr>
              in Some (root, vcpu', k\<lparr> tdp_mmu_roots := root # tdp_mmu_roots k \<rparr>)))"

text \<open>
  The same function run by several threads. Each thread is a vcpu with a program
  counter; \<open>mmu_lock\<close> holds the index of its owner. A thread takes one of four steps:
  acquire the lock (or keep spinning when it is taken), scan the list, allocate and
  insert after a miss, release the lock and return. \<open>run\<close> takes the steps in the order
  of a schedule, a list of thread indices.
\<close>

datatype pc = Start | Locked | Miss | Unlocking kvm_mmu_page | Returned kvm_mmu_page | Halted

record sys =
  vm :: kvm
  mmu_lock :: "nat option"
  threads :: "(kvm_vcpu \<times> pc) list"

definition set_thread :: "nat \<Rightarrow> kvm_vcpu \<times> pc \<Rightarrow> sys \<Rightarrow> sys" where
  "set_thread i t s = s\<lparr> threads := (threads s)[i := t] \<rparr>"

definition step :: "arch \<Rightarrow> nat \<Rightarrow> sys \<Rightarrow> sys" where
  "step a i s =
     (if i \<ge> length (threads s) then s
      else case threads s ! i of (vcpu, p) \<Rightarrow>
        (case p of
           Start \<Rightarrow>
             (if mmu_lock s = None
              then set_thread i (vcpu, Locked) (s\<lparr> mmu_lock := Some i \<rparr>) else s)
         | Locked \<Rightarrow>
             (case scan_roots (page_role_for_level a vcpu (shadow_root_level vcpu))
                     (tdp_mmu_roots (vm s)) of
                Some (root, roots') \<Rightarrow>
                  set_thread i (vcpu, Unlocking root)
                    (s\<lparr> vm := (vm s)\<lparr> tdp_mmu_roots := roots' \<rparr> \<rparr>)
              | None \<Rightarrow> set_thread i (vcpu, Miss) s)
         | Miss \<Rightarrow>
             (case alloc_tdp_mmu_page a vcpu 0 (shadow_root_level vcpu) of
                None \<Rightarrow> set_thread i (vcpu, Halted) s
              | Some (sp, vcpu') \<Rightarrow>
                  let root = sp\<lparr> root_count := 1 \<rparr>
                  in set_thread i (vcpu', Unlocking root)
                       (s\<lparr> vm := (vm s)\<lparr> tdp_mmu_roots := root # tdp_mmu_roots (vm s) \<rparr> \<rparr>))
         | Unlocking root \<Rightarrow> set_thread i (vcpu, Returned root) (s\<lparr> mmu_lock := None \<rparr>)
         | Returned root \<Rightarrow> s
         | Halted \<Rightarrow> s))"

fun run :: "arch \<Rightarrow> nat list \<Rightarrow> sys \<Rightarrow> sys" where
  "run a [] s = s"
| "run a (i # sched) s = run a sched (step a i s)"

definition init_sys :: "kvm \<Rightarrow> kvm_vcpu list \<Rightarrow> sys" where
  "init_sys k vcpus = \<lparr> vm = k, mmu_lock = None, threads = map (\<lambda>v. (v, Start)) vcpus \<rparr>"

definition unique_roots :: "kvm \<Rightarrow> bool" where
  "unique_roots k = distinct (map role (tdp_mmu_roots k))"

text \<open>
  The invariant of the threaded model: the roles of the roots are pairwise different; a
  thread between \<open>spin_lock\<close> and \<open>spin_unlock\<close> owns the lock; and a thread whose
  scan missed has a role no root has.
\<close>

definition in_critical :: "pc \<Rightarrow> bool" where
  "in_critical p = (case p of Locked \<Rightarrow> True | Miss \<Rightarrow> True | Unlocking r \<Rightarrow> True | _ \<Rightarrow> False)"

definition lock_inv :: "arch \<Rightarrow> sys \<Rightarrow> bool" where
  "lock_inv a s =
     (unique_roots (vm s) \<and>
      (\<forall>i < length (threads s).
          (in_critical (snd (threads s ! i)) \<longrightarrow> mmu_lock s = Some i) \<and>
          (snd (threads s ! i) = Miss \<longrightarrow>
             page_role_for_level a (fst (threads s ! i)) (shadow_root_level (fst (threads s ! i)))
               \<notin> role ` set (tdp_mmu_roots (vm s)))))"

text \<open>Two vcpus of the same base role, with their own caches.\<close>

definition vcpu0 :: kvm_vcpu where
  "vcpu0 = \<lparr> mmu_role_base = \<lparr> role_level = 0, role_direct = False,
                role_gpte_is_8_bytes = False, role_access = 0, role_smm = False,
                role_other = 0 \<rparr>,
             shadow_root_level = 4, root_hpa = 0, pf_fixed = 0, mmu_page_header_cache = [100, 101],
             mmu_shadow_page_cache = [40, 44] \<rparr>"

definition vcpu1 :: kvm_vcpu where
  "vcpu1 = vcpu0\<lparr> mmu_page_header_cache := [102, 103], mmu_shadow_page_cache := [48, 52] \<rparr>"

text \<open>
  A VM in which the table of frame 2 (cells 8 to 11) is on the page list and holds a
  level-1 leaf in its first entry.
\<close>

definition leaky_kvm :: kvm where
  "leaky_kvm = (write_spte 8 0x5001 empty_kvm)\<lparr> tdp_mmu_pages := [8] \<rparr>"

subsection \<open>The tree walker\<close>

text \<open>
  Modelled from the spec: tdp\_iter.c and tdp\_iter.h (\<open>for_each_tdp_pte\<close>,
  \<open>tdp_iter_start\<close>, \<open>tdp_iter_next\<close>, \<open>tdp_iter_refresh_walk\<close>) are missing. The walker
  yields the entries along a range of guest frames in ascending order, a parent before
  its children. It starts at the entry of the root that contains the first frame of the
  range; it steps down into the table below a present non-leaf entry, reading the entry
  again before it does; otherwise it steps to the next entry of the table, or up and then
  to the next entry; and it can be restarted from the root at the frame it had reached.
  A loop over \<open>[start, end)\<close> visits the positions from \<open>tdp_iter_start\<close> at \<open>start\<close>
  on, as long as the iterator is valid and the first frame of its entry is below \<open>end\<close>.
\<close>

definition SHADOW_PT_INDEX :: "arch \<Rightarrow> gfn_t \<Rightarrow> int \<Rightarrow> nat" where
  "SHADOW_PT_INDEX a g l = unat (g div KVM_PAGES_PER_HPAGE a l) mod PT64_ENT_PER_PAGE a"

definition round_gfn_for_level :: "arch \<Rightarrow> gfn_t \<Rightarrow> int \<Rightarrow> gfn_t" where
  "round_gfn_for_level a g l = g AND - KVM_PAGES_PER_HPAGE a l"

definition tdp_iter_refresh_sptep :: "arch \<Rightarrow> kvm \<Rightarrow> tdp_iter \<Rightarrow> tdp_iter" where
  "tdp_iter_refresh_sptep a s it =
     (let p = pt_path it (level it - 1) + SHADOW_PT_INDEX a (gfn it) (level it)
      in it\<lparr> sptep := p, old_spte := mem s p \<rparr>)"

definition tdp_iter_start ::
  "arch \<Rightarrow> kvm \<Rightarrow> ptr \<Rightarrow> int \<Rightarrow> int \<Rightarrow> gfn_t \<Rightarrow> int \<Rightarrow> tdp_iter" where
  "tdp_iter_start a s root_pt root_lvl min_lvl goal as_id =
     tdp_iter_refresh_sptep a s
       \<lparr> goal_gfn = goal, pt_path = (\<lambda>_. 0)(root_lvl - 1 := root_pt), sptep = 0,
         gfn = round_gfn_for_level a goal root_lvl, root_level = root_lvl,
         min_level = min_lvl, level = root_lvl, old_spte = 0, valid = True,
         root_as_id = as_id \<rparr>"

text \<open>The table below an entry, if the entry is present and not a leaf.\<close>

definition child_pt :: "arch \<Rightarrow> u64 \<Rightarrow> int \<Rightarrow> ptr option" where
  "child_pt a spte l =
     (if \<not> is_shadow_present_pte a spte \<or> is_last_spte a spte l then None
      else Some (spte_to_child_pt a spte l))"

definition try_step_down :: "arch \<Rightarrow> kvm \<Rightarrow> tdp_iter \<Rightarrow> tdp_iter option" where
  "try_step_down a s it =
     (if level it = min_level it then None
      else case child_pt a (mem s (sptep it)) (level it) of
             None \<Rightarrow> None
           | Some c \<Rightarrow>
               Some (tdp_iter_refresh_sptep a s
                 (it\<lparr> old_spte := mem s (sptep it), level := level it - 1,
                      pt_path := (pt_path it)(level it - 2 := c),
                      gfn := round_gfn_for_level a (goal_gfn it) (level it - 1) \<rparr>)))"

definition try_step_side :: "arch \<Rightarrow> kvm \<Rightarrow> tdp_iter \<Rightarrow> tdp_iter option" where
  "try_step_side a s it =
     (if SHADOW_PT_INDEX a (gfn it) (level it) = PT64_ENT_PER_PAGE a - 1 then None
      else Some (it\<lparr> gfn := gfn it + KVM_PAGES_PER_HPAGE a (level it),
                     goal_gfn := gfn it + KVM_PAGES_PER_HPAGE a (level it),
                     sptep := sptep it + 1, old_spte := mem s (sptep it + 1) \<rparr>))"

definition try_step_up :: "arch \<Rightarrow> kvm \<Rightarrow> tdp_iter \<Rightarrow> tdp_iter option" where
  "try_step_up a s it =
     (if level it \<ge> root_level it then None
      else Some (tdp_iter_refresh_sptep a s
             (it\<lparr> level := level it + 1,
                  gfn := round_gfn_for_level a (gfn it) (level it + 1) \<rparr>)))"

function step_side_or_up :: "arch \<Rightarrow> kvm \<Rightarrow> tdp_iter \<Rightarrow> tdp_iter" where
  "step_side_or_up a s it =
     (case try_step_side a s it of
        Some it' \<Rightarrow> it'
      | None \<Rightarrow>
         (case try_step_up a s it of
            Some it' \<Rightarrow> step_side_or_up a s it'
          | None \<Rightarrow> it\<lparr> valid := False \<rparr>))"
  by pat_completeness auto
termination
  by (relation "measure (\<lambda>(a, s, it). nat (root_level it - level it))")
     (auto simp add: try_step_up_def tdp_iter_refresh_sptep_def Let_def split: if_splits)

declare step_side_or_up.simps [simp del]

definition tdp_iter_next :: "arch \<Rightarrow> kvm \<Rightarrow> tdp_iter \<Rightarrow> tdp_iter" where
  "tdp_iter_next a s it =
     (case try_step_down a s it of Some it' \<Rightarrow> it' | None \<Rightarrow> step_side_or_up a s it)"

definition tdp_iter_refresh_walk :: "arch \<Rightarrow> kvm \<Rightarrow> tdp_iter \<Rightarrow> tdp_iter" where
  "tdp_iter_refresh_walk a s it =
     tdp_iter_start a s (pt_path it (root_level it - 1)) (root_level it) (min_level it)
       (if gfn it > goal_gfn it then gfn it else goal_gfn it) (root_as_id it)"

subsection \<open>Range operations: \<open>zap_gfn_range\<close>\<close>

text \<open>
  The result of an operation that returns a value: the value and the state, a crash in
  \<open>BUG()\<close>, or fuel used up.
\<close>

datatype 'r result = Ret 'r kvm | Crash kvm | Timeout

definition kvm_mmu_page_as_id :: "kvm_mmu_page \<Rightarrow> int" where
  "kvm_mmu_page_as_id sp = (if role_smm (role sp) then 1 else 0)"

text \<open>
  \<open>tdp_mmu_iter_flush_cond_resched\<close>: whether the caller still has to flush, the state
  and the iterator. Dropping the lock in \<open>cond_resched_lock\<close> lets no other thread run
  here.
\<close>

definition tdp_mmu_iter_flush_cond_resched ::
  "arch \<Rightarrow> kvm \<Rightarrow> tdp_iter \<Rightarrow> bool \<times> kvm \<times> tdp_iter" where
  "tdp_mmu_iter_flush_cond_resched a s it =
     (case resched s of
        [] \<Rightarrow> (True, s, it)
      | b # bs \<Rightarrow>
          (if b then
             (let s' = emit FlushAll (s\<lparr> resched := bs \<rparr>)
              in (False, s', tdp_iter_refresh_walk a s' it))
           else (True, s\<lparr> resched := bs \<rparr>, it)))"

text \<open>
  The body of the loop of \<open>zap_gfn_range\<close> at the entry the iterator points to: the new
  value of \<open>flush_needed\<close> and the iterator, with the state.
\<close>

definition zap_entry ::
  "arch \<Rightarrow> nat \<Rightarrow> kvm \<Rightarrow> tdp_iter \<Rightarrow> gfn_t \<Rightarrow> gfn_t \<Rightarrow> bool \<Rightarrow> bool \<Rightarrow> (bool \<times> tdp_iter) result" where
  "zap_entry a f s it start end can_yield flush_needed =
     (if \<not> is_shadow_present_pte a (old_spte it) then Ret (flush_needed, it) s
      else if (gfn it < start \<or> gfn it + KVM_PAGES_PER_HPAGE a (level it) > end) \<and>
              \<not> is_last_spte a (old_spte it) (level it) then Ret (flush_needed, it) s
      else
        (case tdp_mmu_set_spte a f s it 0 of
           Bug s' \<Rightarrow> Crash s'
         | OutOfFuel \<Rightarrow> Timeout
         | Done s' \<Rightarrow>
             (if can_yield then
                (case tdp_mmu_iter_flush_cond_resched a s' it of
                   (fl, s'', it') \<Rightarrow> Ret (fl, it') s'')
              else Ret (True, it) s')))"

text \<open>
  The loop of \<open>zap_gfn_range\<close>, from the iterator position \<open>it\<close> on. The fuel bounds the
  number of entries visited and the depth of a teardown.
\<close>

fun zap_loop ::
  "arch \<Rightarrow> nat \<Rightarrow> kvm \<Rightarrow> tdp_iter \<Rightarrow> gfn_t \<Rightarrow> gfn_t \<Rightarrow> bool \<Rightarrow> bool \<Rightarrow> bool result" where
  "zap_loop a 0 s it start end can_yield flush_needed =
     (if valid it \<and> gfn it < end then Timeout else Ret flush_needed s)"
| "zap_loop a (Suc f) s it start end can_yield flush_needed =
     (if \<not> (valid it \<and> gfn it < end) then Ret flush_needed s
      else
        (case zap_entry a f s it start end can_yield flush_needed of
           Ret (fl, it') s' \<Rightarrow> zap_loop a f s' (tdp_iter_next a s' it') start end can_yield fl
         | Crash s' \<Rightarrow> Crash s'
         | Timeout \<Rightarrow> Timeout))"

definition zap_gfn_range ::
  "arch \<Rightarrow> nat \<Rightarrow> kvm \<Rightarrow> kvm_mmu_page \<Rightarrow> gfn_t \<Rightarrow> gfn_t \<Rightarrow> bool \<Rightarrow> bool result" where
  "zap_gfn_range a fuel s root start end can_yield =
     zap_loop a fuel s
       (tdp_iter_start a s (spt root) (uint (role_level (role root))) (PG_LEVEL_4K a) start
          (kvm_mmu_page_as_id root))
       start end can_yield False"

text \<open>
  \<open>kvm_tdp_mmu_zap_gfn_range\<close>: the loop over the roots, by position in the list; each
  root is pinned while its range is zapped.
\<close>

fun zap_roots ::
  "arch \<Rightarrow> nat \<Rightarrow> kvm \<Rightarrow> nat list \<Rightarrow> gfn_t \<Rightarrow> gfn_t \<Rightarrow> bool \<Rightarrow> bool result" where
  "zap_roots a fuel s [] start end flush = Ret flush s"
| "zap_roots a fuel s (i # is) start end flush =
     (let root = kvm_mmu_get_root (tdp_mmu_roots s ! i);
          s1 = s\<lparr> tdp_mmu_roots := (tdp_mmu_roots s)[i := root] \<rparr>
      in case zap_gfn_range a fuel s1 root start end True of
           Ret fl s2 \<Rightarrow>
             zap_roots a fuel
               (s2\<lparr> tdp_mmu_roots :=
                      (tdp_mmu_roots s2)[i := kvm_mmu_put_root (tdp_mmu_roots s2 ! i)] \<rparr>)
               is start end (flush \<or> fl)
         | Crash s2 \<Rightarrow> Crash s2
         | Timeout \<Rightarrow> Timeout)"

definition kvm_tdp_mmu_zap_gfn_range ::
  "arch \<Rightarrow> nat \<Rightarrow> kvm \<Rightarrow> gfn_t \<Rightarrow> gfn_t \<Rightarrow> bool result" where
  "kvm_tdp_mmu_zap_gfn_range a fuel s start end =
     zap_roots a fuel s [0..<length (tdp_mmu_roots s)] start end False"

text \<open>
  \<open>kvm_tdp_mmu_zap_all\<close>; \<open>max_gfn\<close> is \<open>1ULL << (boot_cpu_data.x86_phys_bits - PAGE_SHIFT)\<close>.
\<close>

definition kvm_tdp_mmu_zap_all :: "arch \<Rightarrow> nat \<Rightarrow> kvm \<Rightarrow> gfn_t \<Rightarrow> unit result" where
  "kvm_tdp_mmu_zap_all a fuel s max_gfn =
     (case kvm_tdp_mmu_zap_gfn_range a fuel s 0 max_gfn of
        Ret flush s' \<Rightarrow> Ret () (if flush then emit FlushAll s' else s')
      | Crash s' \<Rightarrow> Crash s'
      | Timeout \<Rightarrow> Timeout)"

subsection \<open>A sample tree\<close>

text \<open>
  A root of level 2 in the table of frame 1 (cells 4 to 7). Its four entries point to the
  tables of frames 2 to 5, which hold level-1 leaves for the guest frames 0 to 15; the
  leaves of guest frames 8 and 11 are dirty.
\<close>

definition root2 :: kvm_mmu_page where
  "root2 = \<lparr> role = \<lparr> role_level = 2, role_direct = True, role_gpte_is_8_bytes = True,
                role_access = 7, role_smm = False, role_other = 0 \<rparr>,
             sp_gfn = 0, spt = 4, root_count = 1, tdp_mmu_page = True \<rparr>"




subsection \<open>Memory that only loses entries\<close>

text \<open>\<open>zeroed s t\<close>: every cell of \<open>t\<close> holds what it held in \<open>s\<close>, or 0.\<close>

definition zeroed :: "kvm \<Rightarrow> kvm \<Rightarrow> bool" where
  "zeroed s t = (\<forall>p. mem t p = mem s p \<or> mem t p = 0)"

subsection \<open>Notions for the range operations\<close>


text \<open>A list of events that holds nothing but \<open>kvm_set_pfn_dirty\<close> calls.\<close>

definition only_dirty :: "event list \<Rightarrow> bool" where
  "only_dirty evs = list_all (\<lambda>e. case e of SetPfnDirty p \<Rightarrow> True | _ \<Rightarrow> False) evs"


subsection \<open>The fault handler: \<open>kvm_tdp_mmu_map\<close>\<close>

text \<open>
  What the fault path takes from mmu.c, spte.c and the headers, none of which is part of
  the sources at hand, as a second record of parameters: whether the NX huge page
  workaround is on, the error code masks, \<open>PAGE_SHIFT\<close>, \<open>VALID_PAGE\<close>, \<open>__va\<close>, the two
  huge page adjustments (each returns what it stores through its pointer arguments), the
  no-slot test, the three constructors of entries (\<open>make_spte\<close> returns its return value
  and the entry it stores), \<open>shadow_accessed_mask\<close>, and the constants of the return
  values. The \<open>vcpu\<close> argument of these functions selects configuration that tdp\_mmu.c
  never changes; here it is part of the parameter.
\<close>

record mmu_ops =
  is_nx_huge_page_enabled :: bool
  PFERR_WRITE_MASK :: "32 word"
  PFERR_FETCH_MASK :: "32 word"
  PAGE_SHIFT :: nat
  VALID_PAGE :: "u64 \<Rightarrow> bool"
  va :: "u64 \<Rightarrow> ptr"
  kvm_mmu_hugepage_adjust :: "gfn_t \<Rightarrow> int \<Rightarrow> kvm_pfn_t \<Rightarrow> bool \<Rightarrow> int \<times> kvm_pfn_t"
  disallowed_hugepage_adjust :: "u64 \<Rightarrow> gfn_t \<Rightarrow> int \<Rightarrow> kvm_pfn_t \<Rightarrow> int \<Rightarrow> kvm_pfn_t \<times> int"
  is_noslot_pfn :: "kvm_pfn_t \<Rightarrow> bool"
  make_mmio_spte :: "gfn_t \<Rightarrow> 3 word \<Rightarrow> u64"
  make_spte :: "3 word \<Rightarrow> int \<Rightarrow> gfn_t \<Rightarrow> kvm_pfn_t \<Rightarrow> u64 \<Rightarrow> bool \<Rightarrow> bool \<Rightarrow> int \<Rightarrow> bool
                 \<Rightarrow> int \<times> u64"
  make_nonleaf_spte :: "ptr \<Rightarrow> bool \<Rightarrow> u64"
  shadow_accessed_mask :: u64
  SET_SPTE_WRITE_PROTECTED_PT :: int
  RET_PF_RETRY :: int
  RET_PF_EMULATE :: int
  RET_PF_SPURIOUS :: int

text \<open>
  \<open>tdp_mmu_map_handle_target_level\<close>: the return value and the vcpu, with the state.
\<close>

definition tdp_mmu_map_handle_target_level ::
  "arch \<Rightarrow> mmu_ops \<Rightarrow> nat \<Rightarrow> kvm_vcpu \<Rightarrow> kvm \<Rightarrow> bool \<Rightarrow> int \<Rightarrow> tdp_iter \<Rightarrow> kvm_pfn_t \<Rightarrow> bool
     \<Rightarrow> (int \<times> kvm_vcpu) result" where
  "tdp_mmu_map_handle_target_level a m fuel vcpu s write map_writable iter pfn prefault =
     (let (make_spte_ret, new_spte) =
            (if is_noslot_pfn m pfn then (0, make_mmio_spte m (gfn iter) (ACC_ALL a))
             else make_spte m (ACC_ALL a) (level iter) (gfn iter) pfn (old_spte iter) prefault
                    True map_writable (shadow_accessed_mask m = 0));
          vcpu' = (if \<not> prefault then vcpu\<lparr> pf_fixed := pf_fixed vcpu + 1 \<rparr> else vcpu);
          finish = (\<lambda>ret0 s1.
             let ret1 = (if make_spte_ret AND SET_SPTE_WRITE_PROTECTED_PT m \<noteq> 0 \<and> write
                         then RET_PF_EMULATE m else ret0);
                 s2 = (if make_spte_ret AND SET_SPTE_WRITE_PROTECTED_PT m \<noteq> 0
                       then emit RequestTlbFlushCurrent s1 else s1);
                 ret2 = (if is_mmio_spte a new_spte then RET_PF_EMULATE m else ret1)
             in Ret (ret2, vcpu') s2)
      in if new_spte = old_spte iter then finish (RET_PF_SPURIOUS m) s
         else (case tdp_mmu_set_spte a fuel s iter new_spte of
                 Done s1 \<Rightarrow> finish 0 s1
               | Bug s1 \<Rightarrow> Crash s1
               | OutOfFuel \<Rightarrow> Timeout))"

text \<open>
  The first half of the body of the loop of \<open>kvm_tdp_mmu_map\<close>: a present large entry
  above the target level is cleared and its range flushed; the iterator reads the entry
  again.
\<close>

definition map_zap_large :: "arch \<Rightarrow> nat \<Rightarrow> kvm \<Rightarrow> tdp_iter \<Rightarrow> tdp_iter result" where
  "map_zap_large a fuel s iter =
     (if is_shadow_present_pte a (old_spte iter) \<and> is_large_pte a (old_spte iter) then
        (case tdp_mmu_set_spte a fuel s iter 0 of
           Done s1 \<Rightarrow>
             (let s2 = emit (FlushRange (gfn iter) (KVM_PAGES_PER_HPAGE a (level iter))) s1
              in Ret (iter\<lparr> old_spte := mem s2 (sptep iter) \<rparr>) s2)
         | Bug s1 \<Rightarrow> Crash s1
         | OutOfFuel \<Rightarrow> Timeout)
      else Ret iter s)"

text \<open>\<open>clear_page\<close> on a table.\<close>

definition clear_page :: "arch \<Rightarrow> ptr \<Rightarrow> kvm \<Rightarrow> kvm" where
  "clear_page a pt s =
     s\<lparr> mem := (\<lambda>p. if pt \<le> p \<and> p < pt + PT64_ENT_PER_PAGE a then 0 else mem s p) \<rparr>"

text \<open>
  The second half: below an entry that is not present, a new table is allocated, put on
  the page list, cleared and linked. A used-up cache is the \<open>BUG_ON\<close> of the allocator.
\<close>

definition map_install_child ::
  "arch \<Rightarrow> mmu_ops \<Rightarrow> nat \<Rightarrow> kvm_vcpu \<Rightarrow> kvm \<Rightarrow> tdp_iter \<Rightarrow> kvm_vcpu result" where
  "map_install_child a m fuel vcpu s iter =
     (if \<not> is_shadow_present_pte a (old_spte iter) then
        (case alloc_tdp_mmu_page a vcpu (gfn iter) (level iter) of
           None \<Rightarrow> Crash s
         | Some (sp, vcpu') \<Rightarrow>
             (let s1 = clear_page a (spt sp) (s\<lparr> tdp_mmu_pages := spt sp # tdp_mmu_pages s \<rparr>);
                  new_spte = make_nonleaf_spte m (spt sp) (shadow_accessed_mask m = 0)
              in case tdp_mmu_set_spte a fuel s1 iter new_spte of
                   Done s2 \<Rightarrow> Ret vcpu' s2
                 | Bug s2 \<Rightarrow> Crash s2
                 | OutOfFuel \<Rightarrow> Timeout))
      else Ret vcpu s)"

text \<open>
  What follows the loop: the \<open>WARN_ON\<close> exit when the walk did not stop at the target
  level, and the installation of the leaf otherwise.
\<close>

definition map_finish ::
  "arch \<Rightarrow> mmu_ops \<Rightarrow> nat \<Rightarrow> kvm_vcpu \<Rightarrow> kvm \<Rightarrow> tdp_iter \<Rightarrow> kvm_pfn_t \<Rightarrow> int \<Rightarrow> bool \<Rightarrow> int \<Rightarrow> bool
     \<Rightarrow> (int \<times> kvm_vcpu) result" where
  "map_finish a m fuel vcpu s iter pfn lvl write map_writable prefault =
     (if level iter \<noteq> lvl then Ret (RET_PF_RETRY m, vcpu) (WARN_ON True s)
      else tdp_mmu_map_handle_target_level a m fuel vcpu s write map_writable iter pfn prefault)"

text \<open>
  The loop \<open>tdp_mmu_for_each_pte(iter, mmu, gfn, gfn + 1)\<close> of \<open>kvm_tdp_mmu_map\<close>, from
  the iterator position \<open>iter\<close> on. The fuel bounds the number of entries visited and
  the depth of a teardown.
\<close>

fun map_loop ::
  "arch \<Rightarrow> mmu_ops \<Rightarrow> nat \<Rightarrow> kvm_vcpu \<Rightarrow> kvm \<Rightarrow> tdp_iter \<Rightarrow> gfn_t \<Rightarrow> kvm_pfn_t \<Rightarrow> int \<Rightarrow> bool \<Rightarrow> int
     \<Rightarrow> bool \<Rightarrow> (int \<times> kvm_vcpu) result" where
  "map_loop a m 0 vcpu s iter g pfn lvl write map_writable prefault =
     (if valid iter \<and> gfn iter < g + 1 then Timeout
      else map_finish a m 0 vcpu s iter pfn lvl write map_writable prefault)"
| "map_loop a m (Suc f) vcpu s iter g pfn lvl write map_writable prefault =
     (if \<not> (valid iter \<and> gfn iter < g + 1)
      then map_finish a m (Suc f) vcpu s iter pfn lvl write map_writable prefault
      else
        (case (if is_nx_huge_page_enabled m
               then disallowed_hugepage_adjust m (old_spte iter) g (level iter) pfn lvl
               else (pfn, lvl)) of
           (pfn', lvl') \<Rightarrow>
             if level iter = lvl'
             then map_finish a m (Suc f) vcpu s iter pfn' lvl' write map_writable prefault
             else
               (case map_zap_large a f s iter of
                  Crash s1 \<Rightarrow> Crash s1
                | Timeout \<Rightarrow> Timeout
                | Ret iter1 s1 \<Rightarrow>
                   (case map_install_child a m f vcpu s1 iter1 of
                      Crash s2 \<Rightarrow> Crash s2
                    | Timeout \<Rightarrow> Timeout
                    | Ret vcpu' s2 \<Rightarrow>
                        map_loop a m f vcpu' s2 (tdp_iter_next a s2 iter1) g pfn' lvl'
                          write map_writable prefault))))"

text \<open>
  \<open>is_tdp_mmu_root\<close>. \<open>to_shadow_page\<close> finds the page of a table among the roots; every
  other table has \<open>root_count = 0\<close>.
\<close>

definition to_shadow_page :: "mmu_ops \<Rightarrow> kvm \<Rightarrow> u64 \<Rightarrow> kvm_mmu_page option" where
  "to_shadow_page m k hpa = find (\<lambda>r. spt r = va m hpa) (tdp_mmu_roots k)"

definition is_tdp_mmu_root :: "mmu_ops \<Rightarrow> kvm \<Rightarrow> u64 \<Rightarrow> bool" where
  "is_tdp_mmu_root m k hpa =
     (case to_shadow_page m k hpa of
        None \<Rightarrow> False
      | Some sp \<Rightarrow> tdp_mmu_page sp \<and> root_count sp \<noteq> 0)"

text \<open>
  Where \<open>tdp_mmu_for_each_pte\<close> begins: at the root of the vcpu, heading for \<open>g\<close>.
\<close>

definition fault_walk_start :: "arch \<Rightarrow> mmu_ops \<Rightarrow> kvm_vcpu \<Rightarrow> kvm \<Rightarrow> gfn_t \<Rightarrow> tdp_iter" where
  "fault_walk_start a m vcpu s g =
     tdp_iter_start a s (va m (root_hpa vcpu)) (shadow_root_level vcpu) (PG_LEVEL_4K a) g
       (case to_shadow_page m s (root_hpa vcpu) of
          None \<Rightarrow> 0 | Some sp \<Rightarrow> kvm_mmu_page_as_id sp)"

definition kvm_tdp_mmu_map ::
  "arch \<Rightarrow> mmu_ops \<Rightarrow> nat \<Rightarrow> kvm_vcpu \<Rightarrow> kvm \<Rightarrow> u64 \<Rightarrow> 32 word \<Rightarrow> int \<Rightarrow> int \<Rightarrow> kvm_pfn_t \<Rightarrow> bool
     \<Rightarrow> (int \<times> kvm_vcpu) result" where
  "kvm_tdp_mmu_map a m fuel vcpu s gpa error_code map_writable max_level pfn prefault =
     (let nx_huge_page_workaround_enabled = is_nx_huge_page_enabled m;
          write = (error_code AND PFERR_WRITE_MASK m \<noteq> 0);
          exec = (error_code AND PFERR_FETCH_MASK m \<noteq> 0);
          huge_page_disallowed = (exec \<and> nx_huge_page_workaround_enabled);
          g = drop_bit (PAGE_SHIFT m) gpa
      in if \<not> VALID_PAGE m (root_hpa vcpu) then Ret (RET_PF_RETRY m, vcpu) (WARN_ON True s)
         else if \<not> is_tdp_mmu_root m s (root_hpa vcpu)
         then Ret (RET_PF_RETRY m, vcpu) (WARN_ON True s)
         else
           (case kvm_mmu_hugepage_adjust m g max_level pfn huge_page_disallowed of
              (lvl, pfn') \<Rightarrow>
                map_loop a m fuel vcpu s (fault_walk_start a m vcpu s g)
                  g pfn' lvl write map_writable prefault))"

subsection \<open>A sample instance of the fault path\<close>

text \<open>
  Frames from \<open>2 ^ 40\<close> on lie in no memory slot. A guest memory frame is mapped
  present and writable, as a large page above level 1; nothing is write-protected. The
  special entry of a guest frame has bit 62 set. The table at cell \<open>c\<close> is linked by the
  present entry of frame \<open>c div 4\<close>.
\<close>

definition sample_mmu :: mmu_ops where
  "sample_mmu = \<lparr>
     is_nx_huge_page_enabled = False,
     PFERR_WRITE_MASK = 2,
     PFERR_FETCH_MASK = 16,
     PAGE_SHIFT = 12,
     VALID_PAGE = (\<lambda>h. h \<noteq> - 1),
     va = (\<lambda>h. 4 * unat (drop_bit 12 h)),
     kvm_mmu_hugepage_adjust = (\<lambda>g max_level pfn disallowed. (max_level, pfn)),
     disallowed_hugepage_adjust = (\<lambda>spte g cur pfn lvl. (pfn, lvl)),
     is_noslot_pfn = (\<lambda>pfn. bit pfn 40),
     make_mmio_spte = (\<lambda>g acc. push_bit 62 1 OR push_bit 12 g),
     make_spte = (\<lambda>acc lvl g pfn old prefault can_unsync map_writable ad_disabled.
                    (0, push_bit 12 (take_bit 40 pfn) OR (if lvl > 1 then 0x83 else 3))),
     make_nonleaf_spte = (\<lambda>pt ad_disabled. push_bit 12 (of_nat (pt div 4)) OR 1),
     shadow_accessed_mask = 0,
     SET_SPTE_WRITE_PROTECTED_PT = 1,
     RET_PF_RETRY = 0,
     RET_PF_EMULATE = 1,
     RET_PF_SPURIOUS = 4 \<rparr>"

text \<open>
  A vcpu whose root is the root of the sample tree, and the sample tree without its
  second-level tables.
\<close>

definition vcpu2 :: kvm_vcpu where
  "vcpu2 = \<lparr> mmu_role_base = \<lparr> role_level = 0, role_direct = False,
                role_gpte_is_8_bytes = False, role_access = 0, role_smm = False,
                role_other = 0 \<rparr>,
             shadow_root_level = 2, root_hpa = 0x1000, pf_fixed = 0,
             mmu_page_header_cache = [200, 201], mmu_shadow_page_cache = [40, 44] \<rparr>"

definition bare_root :: kvm where
  "bare_root = empty_kvm\<lparr> tdp_mmu_roots := [root2] \<rparr>"



subsection \<open>Notions for the walk of a fault\<close>

text \<open>
  A walk for guest frame \<open>g\<close> that changes nothing: from the position \<open>it\<close>, over present
  entries that are not large, down to an entry of level \<open>lvl\<close>; \<open>None\<close> when the tree does
  not lead there within \<open>n\<close> steps.
\<close>

fun walk_reaches :: "arch \<Rightarrow> nat \<Rightarrow> kvm \<Rightarrow> tdp_iter \<Rightarrow> gfn_t \<Rightarrow> int \<Rightarrow> tdp_iter option" where
  "walk_reaches a 0 s it g lvl =
     (if valid it \<and> gfn it < g + 1 \<and> level it = lvl then Some it else None)"
| "walk_reaches a (Suc n) s it g lvl =
     (if \<not> (valid it \<and> gfn it < g + 1) then None
      else if level it = lvl then Some it
      else if is_shadow_present_pte a (old_spte it) \<and> \<not> is_large_pte a (old_spte it)
      then walk_reaches a n s (tdp_iter_next a s it) g lvl
      else None)"

text \<open>
  The cells that the walk of a fault for the target level \<open>lvl\<close> reads before it writes
  for the first time: from the position \<open>it\<close> down over present entries that are not
  large, up to and including the first entry that is at the target level, not present, or
  large.
\<close>

fun walk_cells :: "arch \<Rightarrow> nat \<Rightarrow> kvm \<Rightarrow> tdp_iter \<Rightarrow> int \<Rightarrow> ptr list" where
  "walk_cells a 0 s it lvl = [sptep it]"
| "walk_cells a (Suc n) s it lvl =
     (if level it = lvl \<or>
         \<not> (is_shadow_present_pte a (old_spte it) \<and> \<not> is_large_pte a (old_spte it))
      then [sptep it]
      else sptep it # walk_cells a n s (tdp_iter_next a s it) lvl)"

text \<open>
  The tables of a cache are fresh with respect to a list of cells in use: no table of the
  cache contains a cell in use, and no two tables of the cache overlap.
\<close>

fun fresh_tables :: "arch \<Rightarrow> ptr list \<Rightarrow> ptr list \<Rightarrow> bool" where
  "fresh_tables a [] used = True"
| "fresh_tables a (t # ts) used =
     ((\<forall>p \<in> set used. p < t \<or> t + PT64_ENT_PER_PAGE a \<le> p) \<and>
      fresh_tables a ts ([t ..< t + PT64_ENT_PER_PAGE a] @ used))"

section \<open>Properties\<close>

subsection \<open>Projections of the state after the effect primitives\<close>

lemma trace_simps [simp]:
  "trace (WARN_ON b s) = trace s" "trace (pr_err s) = trace s"
  "trace (emit e s) = trace s @ [e]" "trace (list_del p s) = trace s"
  "trace (write_spte q v s) = trace s"
  by (simp_all add: WARN_ON_def pr_err_def emit_def list_del_def write_spte_def)

lemma mem_simps [simp]:
  "mem (WARN_ON b s) = mem s" "mem (pr_err s) = mem s"
  "mem (emit e s) = mem s" "mem (list_del p s) = mem s"
  "mem (write_spte q v s) = (mem s)(q := v)"
  by (simp_all add: WARN_ON_def pr_err_def emit_def list_del_def write_spte_def)

lemma pages_simps [simp]:
  "tdp_mmu_pages (WARN_ON b s) = tdp_mmu_pages s" "tdp_mmu_pages (pr_err s) = tdp_mmu_pages s"
  "tdp_mmu_pages (emit e s) = tdp_mmu_pages s"
  "tdp_mmu_pages (list_del p s) = remove1 p (tdp_mmu_pages s)"
  "tdp_mmu_pages (write_spte q v s) = tdp_mmu_pages s"
  by (simp_all add: WARN_ON_def pr_err_def emit_def list_del_def write_spte_def)

lemma roots_simps [simp]:
  "tdp_mmu_roots (WARN_ON b s) = tdp_mmu_roots s" "tdp_mmu_roots (pr_err s) = tdp_mmu_roots s"
  "tdp_mmu_roots (emit e s) = tdp_mmu_roots s" "tdp_mmu_roots (list_del p s) = tdp_mmu_roots s"
  "tdp_mmu_roots (write_spte q v s) = tdp_mmu_roots s"
  by (simp_all add: WARN_ON_def pr_err_def emit_def list_del_def write_spte_def)

lemma resched_simps [simp]:
  "resched (WARN_ON b s) = resched s" "resched (pr_err s) = resched s"
  "resched (emit e s) = resched s" "resched (list_del p s) = resched s"
  "resched (write_spte q v s) = resched s"
  by (simp_all add: WARN_ON_def pr_err_def emit_def list_del_def write_spte_def)

lemma clear_page_simps [simp]:
  "mem (clear_page a pt s) = (\<lambda>p. if pt \<le> p \<and> p < pt + PT64_ENT_PER_PAGE a then 0 else mem s p)"
  "trace (clear_page a pt s) = trace s" "tdp_mmu_pages (clear_page a pt s) = tdp_mmu_pages s"
  "tdp_mmu_roots (clear_page a pt s) = tdp_mmu_roots s" "resched (clear_page a pt s) = resched s"
  by (simp_all add: clear_page_def)

lemmas sample_simps = sample_arch_def sample_mmio_def sample_pfn_def empty_kvm_def

subsection \<open>C1: replacing a present leaf by a present leaf of another frame is fatal\<close>

text \<open>
  C1. Whenever the old and the new value are both present leaves at the level of the call
  and map different host frames, \<open>__handle_changed_spte\<close> ends in \<open>BUG()\<close>, whatever the
  other arguments are; nothing was forwarded, flushed or freed before the crash.
\<close>

theorem leaf_replacement_is_fatal:
  assumes "is_shadow_present_pte a old" "is_last_spte a old lvl"
    and "is_shadow_present_pte a new" "is_last_spte a new lvl"
    and "spte_to_pfn a old \<noteq> spte_to_pfn a new"
  shows "\<exists>s'. handle_changed_spte a fuel s as_id g old new lvl = Bug s'
           \<and> trace s' = trace s \<and> mem s' = mem s \<and> tdp_mmu_pages s' = tdp_mmu_pages s"
  using assms by (simp add: handle_changed_spte.simps Let_def)

text \<open>C1, at a concrete input: two level-1 leaves, frames 5 and 6.\<close>

theorem leaf_replacement_is_fatal_witness:
  "\<exists>s'. handle_changed_spte sample_arch 0 empty_kvm 0 0 0x5001 0x6001 1 = Bug s'
           \<and> trace s' = [] \<and> mem s' = (\<lambda>_. 0) \<and> tdp_mmu_pages s' = []"
  using leaf_replacement_is_fatal [where a = sample_arch and old = "0x5001" and lvl = 1
      and new = "0x6001" and fuel = 0 and s = empty_kvm and as_id = 0 and g = 0]
  by (simp add: sample_simps)

subsection \<open>C6: forwarding the dirty bit\<close>

text \<open>
  C6, as stated, fails: a dirty present leaf of frame 5 that is replaced by a present leaf
  of the same frame without the dirty bit is reported dirty, although the entry neither
  became not-present nor changed its frame.
\<close>

theorem dirty_forwarded_on_cleared_dirty_bit:
  "handle_changed_spte sample_arch 0 empty_kvm 0 0 0x5201 0x5001 1
      = Done (emit (SetPfnDirty 5) empty_kvm)
   \<and> is_shadow_present_pte sample_arch 0x5001
   \<and> spte_to_pfn sample_arch 0x5001 = spte_to_pfn sample_arch 0x5201"
  by (simp add: handle_changed_spte.simps sample_simps Let_def WARN_ON_def)

text \<open>
  C6, amended. For an old value that is not a present non-leaf entry (so that no child
  table is torn down), the call returns and appends exactly one \<open>kvm_set_pfn_dirty\<close> for
  the old frame when the old value was present with the dirty bit and the new value has
  lost the dirty bit or maps another frame, and appends nothing otherwise; the only other
  outcome is the crash of C1, which forwards nothing.
\<close>

theorem dirty_forwarding:
  assumes "\<not> (is_shadow_present_pte a old \<and> \<not> is_last_spte a old lvl)"
  shows "case handle_changed_spte a fuel s as_id g old new lvl of
           Done s' \<Rightarrow> trace s' = trace s @
              (if is_shadow_present_pte a old \<and> is_dirty_spte a old \<and>
                  (\<not> is_dirty_spte a new \<or> spte_to_pfn a old \<noteq> spte_to_pfn a new)
               then [SetPfnDirty (spte_to_pfn a old)] else [])
         | Bug s' \<Rightarrow> trace s' = trace s \<and> is_shadow_present_pte a old
               \<and> is_shadow_present_pte a new \<and> is_last_spte a new lvl
               \<and> spte_to_pfn a old \<noteq> spte_to_pfn a new
         | OutOfFuel \<Rightarrow> False"
  using assms by (auto simp add: handle_changed_spte.simps Let_def)

text \<open>C6, amended, at a concrete input: a dirty level-1 leaf of frame 5 is zapped.\<close>

theorem dirty_forwarding_witness:
  "\<not> (is_shadow_present_pte sample_arch 0x5201 \<and> \<not> is_last_spte sample_arch 0x5201 1) \<and>
   (case handle_changed_spte sample_arch 0 empty_kvm 0 0 0x5201 0 1 of
           Done s' \<Rightarrow> trace s' = [SetPfnDirty 5]
         | Bug s' \<Rightarrow> False
         | OutOfFuel \<Rightarrow> False)"
proof -
  have h: "\<not> (is_shadow_present_pte sample_arch 0x5201 \<and> \<not> is_last_spte sample_arch 0x5201 1)"
    by (simp add: sample_simps)
  from dirty_forwarding [OF h, where fuel = 0 and s = empty_kvm and as_id = 0 and g = 0 and new = 0]
  show ?thesis
    by (simp add: sample_simps split: outcome.splits)
qed

subsection \<open>C8: what the effects of \<open>__handle_changed_spte\<close> depend on\<close>

lemma same_run_iff:
  "same_run s1 s2 t1 t2 =
     (mem t1 = mem t2 \<and> (\<exists>evs. trace t1 = trace s1 @ evs \<and> trace t2 = trace s2 @ evs))"
  unfolding same_run_def emitted_def by auto

lemma same_run_refl: "mem s1 = mem s2 \<Longrightarrow> same_run s1 s2 s1 s2"
  by (simp add: same_run_iff)

lemma same_run_trans:
  "same_run s1 s2 t1 t2 \<Longrightarrow> same_run t1 t2 u1 u2 \<Longrightarrow> same_run s1 s2 u1 u2"
  by (auto simp add: same_run_iff)

lemma same_effects_simps [simp]:
  "same_effects s1 s2 (Done t1) (Done t2) = same_run s1 s2 t1 t2"
  "same_effects s1 s2 (Bug t1) (Bug t2) = same_run s1 s2 t1 t2"
  "same_effects s1 s2 OutOfFuel OutOfFuel"
  by (simp_all add: same_effects_def)

lemma same_effects_trans:
  "same_run s1 s2 t1 t2 \<Longrightarrow> same_effects t1 t2 r1 r2 \<Longrightarrow> same_effects s1 s2 r1 r2"
  by (cases r1; cases r2) (auto simp add: same_effects_def intro: same_run_trans)

lemma for_each_index_same:
  assumes body: "\<And>t1 t2 i. mem t1 = mem t2 \<Longrightarrow> same_effects t1 t2 (b1 t1 i) (b2 t2 i)"
  shows "mem s1 = mem s2 \<Longrightarrow> same_effects s1 s2 (for_each_index b1 ixs s1) (for_each_index b2 ixs s2)"
proof (induction ixs arbitrary: s1 s2)
  case Nil
  then show ?case by (simp add: same_run_refl)
next
  case (Cons i ixs)
  from body [OF Cons.prems, of i] show ?case
  proof (cases "b1 s1 i"; cases "b2 s2 i"; simp add: same_effects_def [of _ _ "Done _" "Bug _"] same_effects_def [of _ _ "Done _" OutOfFuel] same_effects_def [of _ _ "Bug _" "Done _"] same_effects_def [of _ _ "Bug _" OutOfFuel] same_effects_def [of _ _ OutOfFuel "Done _"] same_effects_def [of _ _ OutOfFuel "Bug _"])
    fix t1 t2
    assume r: "same_run s1 s2 t1 t2"
    then have "mem t1 = mem t2" by (simp add: same_run_def)
    from Cons.IH [OF this] r
    show "same_effects s1 s2 (for_each_index b1 ixs t1) (for_each_index b2 ixs t2)"
      by (rule same_effects_trans [rotated])
  qed
qed

lemma same_run_step:
  "same_run s1 s2 t1 t2 \<Longrightarrow> same_run s1 s2 (emit e t1) (emit e t2)"
  "same_run s1 s2 t1 t2 \<Longrightarrow> same_run s1 s2 (WARN_ON b t1) (WARN_ON b' t2)"
  "same_run s1 s2 t1 t2 \<Longrightarrow> same_run s1 s2 (pr_err t1) (pr_err t2)"
  "same_run s1 s2 t1 t2 \<Longrightarrow> same_run s1 s2 (list_del p t1) (list_del p' t2)"
  "same_run s1 s2 t1 t2 \<Longrightarrow> same_run s1 s2 (write_spte q v t1) (write_spte q v t2)"
  by (auto simp add: same_run_iff)

lemma same_effects_finish:
  assumes "same_effects s1 s2 r1 r2"
  shows "same_effects s1 s2
     (case r1 of Done s6 \<Rightarrow> Done (emit e3 (emit e2 (emit e1 s6))) | Bug s6 \<Rightarrow> Bug s6
        | OutOfFuel \<Rightarrow> OutOfFuel)
     (case r2 of Done s6 \<Rightarrow> Done (emit e3 (emit e2 (emit e1 s6))) | Bug s6 \<Rightarrow> Bug s6
        | OutOfFuel \<Rightarrow> OutOfFuel)"
  using assms by (cases r1; cases r2) (auto simp add: same_effects_def same_run_step)

text \<open>
  C8, as stated, fails: the same triple (a level-2 entry pointing to the table of frame 2,
  replaced by 0) at the same guest frame forwards a dirty frame or not, depending on what
  the child table holds.
\<close>

theorem effects_depend_on_child_table:
  "(case handle_changed_spte sample_arch 1 empty_kvm 0 0 0x2001 0 2 of
      Done t \<Rightarrow> trace t | Bug t \<Rightarrow> [] | OutOfFuel \<Rightarrow> [])
     = [FlushRange 0 4, FreePage 8, KmemCacheFree 8]
   \<and> (case handle_changed_spte sample_arch 1 (write_spte 8 0x5201 empty_kvm) 0 0 0x2001 0 2 of
      Done t \<Rightarrow> trace t | Bug t \<Rightarrow> [] | OutOfFuel \<Rightarrow> [])
     = [SetPfnDirty 5, FlushRange 0 4, FreePage 8, KmemCacheFree 8]"
  by code_simp

text \<open>
  C8, amended. The effects of \<open>__handle_changed_spte\<close> (events appended, outcome, table
  memory afterwards) are a function of the old value, the new value, the level, the guest
  frame and the table memory: two runs that agree on these agree on the effects, whatever
  the address space id, the earlier trace, the page list and the warnings so far are.
\<close>

theorem effects_determined:
  assumes "mem s1 = mem s2"
  shows "same_effects s1 s2 (handle_changed_spte a fuel s1 as1 g old new lvl)
                            (handle_changed_spte a fuel s2 as2 g old new lvl)"
  using assms
proof (induction fuel arbitrary: s1 s2 g old new lvl)
  case 0
  then show ?case
    by (simp add: handle_changed_spte.simps [of _ 0] Let_def same_run_step same_run_refl)
next
  case (Suc f)
  have loop: "\<And>t1 t2 pt. mem t1 = mem t2 \<Longrightarrow>
     same_effects t1 t2
      (for_each_index (\<lambda>t i. handle_changed_spte a f (write_spte (pt + i) 0 t) as1
                                       (g + of_nat i * KVM_PAGES_PER_HPAGE a (lvl - 1))
                                       (mem t (pt + i)) 0 (lvl - 1)) [0..<PT64_ENT_PER_PAGE a] t1)
      (for_each_index (\<lambda>t i. handle_changed_spte a f (write_spte (pt + i) 0 t) as2
                                       (g + of_nat i * KVM_PAGES_PER_HPAGE a (lvl - 1))
                                       (mem t (pt + i)) 0 (lvl - 1)) [0..<PT64_ENT_PER_PAGE a] t2)"
  proof (rule for_each_index_same)
    fix t1 t2 :: kvm and pt i
    assume m: "mem t1 = mem t2"
    have "same_run t1 t2 (write_spte (pt + i) 0 t1) (write_spte (pt + i) 0 t2)"
      by (simp add: same_run_step same_run_refl m)
    moreover have "same_effects (write_spte (pt + i) 0 t1) (write_spte (pt + i) 0 t2)
       (handle_changed_spte a f (write_spte (pt + i) 0 t1) as1
                                       (g + of_nat i * KVM_PAGES_PER_HPAGE a (lvl - 1))
                                       (mem t1 (pt + i)) 0 (lvl - 1))
       (handle_changed_spte a f (write_spte (pt + i) 0 t2) as2
                                       (g + of_nat i * KVM_PAGES_PER_HPAGE a (lvl - 1))
                                       (mem t1 (pt + i)) 0 (lvl - 1))"
      by (rule Suc.IH) (simp add: m)
    ultimately show "same_effects t1 t2
       (handle_changed_spte a f (write_spte (pt + i) 0 t1) as1
                                       (g + of_nat i * KVM_PAGES_PER_HPAGE a (lvl - 1))
                                       (mem t1 (pt + i)) 0 (lvl - 1))
       (handle_changed_spte a f (write_spte (pt + i) 0 t2) as2
                                       (g + of_nat i * KVM_PAGES_PER_HPAGE a (lvl - 1))
                                       (mem t2 (pt + i)) 0 (lvl - 1))"
      using m by (simp add: same_effects_trans)
  qed
  note step = same_run_step same_run_refl [OF Suc.prems]
  show ?case
    unfolding handle_changed_spte.simps [of _ "Suc f"] Let_def
    by (auto simp add: step Suc.prems intro!: same_effects_finish same_effects_trans [OF _ loop])
qed

text \<open>C8, amended, at a concrete input: two runs that differ in \<open>as_id\<close> and history.\<close>

theorem effects_determined_witness:
  "mem empty_kvm = mem (empty_kvm\<lparr>trace := [FlushAll], warnings := 7\<rparr>) \<and>
   same_effects empty_kvm (empty_kvm\<lparr>trace := [FlushAll], warnings := 7\<rparr>)
     (handle_changed_spte sample_arch 1 empty_kvm 0 0 0x2001 0 2)
     (handle_changed_spte sample_arch 1 (empty_kvm\<lparr>trace := [FlushAll], warnings := 7\<rparr>) 1 0 0x2001 0 2)"
proof -
  have h: "mem empty_kvm = mem (empty_kvm\<lparr>trace := [FlushAll], warnings := 7\<rparr>)"
    by simp
  from effects_determined [OF h] h show ?thesis by simp
qed

subsection \<open>C2: one root per role\<close>

lemma role_get_root [simp]: "role (kvm_mmu_get_root r) = role r"
  by (simp add: kvm_mmu_get_root_def)

lemma scan_roots_None: "(scan_roots rl rs = None) = (rl \<notin> role ` set rs)"
  by (induction rs) (auto split: option.splits)

lemma scan_roots_Some:
  "scan_roots rl rs = Some (x, rs') \<Longrightarrow>
     \<exists>ys r zs. rs = ys @ r # zs \<and> rl \<notin> role ` set ys \<and> role r = rl \<and>
        x = kvm_mmu_get_root r \<and> rs' = ys @ x # zs"
proof (induction rs arbitrary: rs')
  case Nil
  then show ?case by simp
next
  case (Cons r rs)
  show ?case
  proof (cases "role r = rl")
    case True
    with Cons.prems have "x = kvm_mmu_get_root r" "rs' = x # rs" by auto
    with True show ?thesis by (intro exI [of _ "[]"] exI [of _ r] exI [of _ rs]) simp
  next
    case False
    with Cons.prems obtain rs'' where s: "scan_roots rl rs = Some (x, rs'')" and r: "rs' = r # rs''"
      by (auto split: option.splits)
    from Cons.IH [OF s] obtain ys r0 zs where
      "rs = ys @ r0 # zs" "rl \<notin> role ` set ys" "role r0 = rl" "x = kvm_mmu_get_root r0"
      "rs'' = ys @ x # zs" by blast
    with False r show ?thesis
      by (intro exI [of _ "r # ys"] exI [of _ r0] exI [of _ zs]) auto
  qed
qed

lemma scan_roots_roles:
  "scan_roots rl rs = Some (x, rs') \<Longrightarrow> map role rs' = map role rs \<and> role x = rl \<and> x \<in> set rs'"
  by (drule scan_roots_Some) auto

lemma alloc_role:
  "alloc_tdp_mmu_page a v g lvl = Some (sp, v') \<Longrightarrow>
     role sp = page_role_for_level a v lvl \<and> mmu_role_base v' = mmu_role_base v \<and>
     shadow_root_level v' = shadow_root_level v \<and> sp_gfn sp = g \<and> tdp_mmu_page sp"
  by (auto simp add: alloc_tdp_mmu_page_def split: option.splits)

lemma in_critical_simps [simp]:
  "in_critical Locked" "in_critical Miss" "in_critical (Unlocking r)"
  "\<not> in_critical Start" "\<not> in_critical (Returned r)" "\<not> in_critical Halted"
  by (simp_all add: in_critical_def)

lemma lock_inv_step: "lock_inv a s \<Longrightarrow> lock_inv a (step a i s)"
proof (cases "i < length (threads s)")
  case False
  assume "lock_inv a s"
  with False show ?thesis by (simp add: step_def)
next
  case True
  assume inv: "lock_inv a s"
  obtain v p where t: "threads s ! i = (v, p)" by (cases "threads s ! i")
  from inv have uniq: "unique_roots (vm s)" by (simp add: lock_inv_def)
  have crit: "\<And>j. j < length (threads s) \<Longrightarrow> in_critical (snd (threads s ! j)) \<Longrightarrow> mmu_lock s = Some j"
    using inv by (simp add: lock_inv_def)
  have miss: "\<And>j. j < length (threads s) \<Longrightarrow> snd (threads s ! j) = Miss \<Longrightarrow>
       page_role_for_level a (fst (threads s ! j)) (shadow_root_level (fst (threads s ! j)))
               \<notin> role ` set (tdp_mmu_roots (vm s))"
    using inv by (simp add: lock_inv_def)
  show ?thesis
  proof (cases p)
    case Start
    show ?thesis
    proof (cases "mmu_lock s")
      case None
      have others: "\<And>j. j < length (threads s) \<Longrightarrow> \<not> in_critical (snd (threads s ! j))"
        using crit None by auto
      have nm: "\<And>j. j < length (threads s) \<Longrightarrow> snd (threads s ! j) \<noteq> Miss"
        using others in_critical_simps(2) by metis
      have st: "step a i s = set_thread i (v, Locked) (s\<lparr> mmu_lock := Some i \<rparr>)"
        using True t Start None by (simp add: step_def)
      from uniq others nm True show ?thesis
        unfolding st lock_inv_def set_thread_def
        by (auto simp add: nth_list_update)
    next
      case (Some j)
      then have "step a i s = s" using True t Start by (simp add: step_def)
      with inv show ?thesis by simp
    qed
  next
    case Locked
    let ?rl = "page_role_for_level a v (shadow_root_level v)"
    from crit [OF True] t Locked have li: "mmu_lock s = Some i" by simp
    have others: "\<And>j. j < length (threads s) \<Longrightarrow> j \<noteq> i \<Longrightarrow> \<not> in_critical (snd (threads s ! j))"
      using crit li by auto
    have nm: "\<And>j. j < length (threads s) \<Longrightarrow> j \<noteq> i \<Longrightarrow> snd (threads s ! j) \<noteq> Miss"
      using others in_critical_simps(2) by metis
    show ?thesis
    proof (cases "scan_roots ?rl (tdp_mmu_roots (vm s))")
      case None
      then have st: "step a i s = set_thread i (v, Miss) s"
        using True t Locked by (simp add: step_def)
      from None have "?rl \<notin> role ` set (tdp_mmu_roots (vm s))" by (simp add: scan_roots_None)
      with uniq li others nm True show ?thesis
        unfolding st lock_inv_def set_thread_def
        by (auto simp add: nth_list_update)
    next
      case (Some xr)
      obtain x rs' where xr: "xr = (x, rs')" by (cases xr)
      with Some have st: "step a i s = set_thread i (v, Unlocking x)
                    (s\<lparr> vm := (vm s)\<lparr> tdp_mmu_roots := rs' \<rparr> \<rparr>)"
        using True t Locked by (simp add: step_def)
      from scan_roots_roles [OF Some [unfolded xr]]
      have m: "map role rs' = map role (tdp_mmu_roots (vm s))" by simp
      then have im: "role ` set rs' = role ` set (tdp_mmu_roots (vm s))"
        by (metis set_map)
      from uniq li others nm True m im show ?thesis
        unfolding st lock_inv_def set_thread_def unique_roots_def
        by (auto simp add: nth_list_update)
    qed
  next
    case Miss
    let ?rl = "page_role_for_level a v (shadow_root_level v)"
    from crit [OF True] t Miss have li: "mmu_lock s = Some i" by simp
    have others: "\<And>j. j < length (threads s) \<Longrightarrow> j \<noteq> i \<Longrightarrow> \<not> in_critical (snd (threads s ! j))"
      using crit li by auto
    show ?thesis
    proof (cases "alloc_tdp_mmu_page a v 0 (shadow_root_level v)")
      case None
      then have st: "step a i s = set_thread i (v, Halted) s"
        using True t Miss by (simp add: step_def)
      have nm: "\<And>j. j < length (threads s) \<Longrightarrow> j \<noteq> i \<Longrightarrow> snd (threads s ! j) \<noteq> Miss"
        using others in_critical_simps(2) by metis
      from uniq li others nm True show ?thesis
        unfolding st lock_inv_def set_thread_def
        by (auto simp add: nth_list_update)
    next
      case (Some spv)
      obtain sp v' where spv: "spv = (sp, v')" by (cases spv)
      with Some have st: "step a i s = set_thread i (v', Unlocking (sp\<lparr> root_count := 1 \<rparr>))
                       (s\<lparr> vm := (vm s)\<lparr> tdp_mmu_roots := sp\<lparr> root_count := 1 \<rparr> # tdp_mmu_roots (vm s) \<rparr> \<rparr>)"
        using True t Miss by (simp add: step_def Let_def)
      from alloc_role [OF Some [unfolded spv]] have r: "role sp = ?rl" by simp
      from miss [OF True] t Miss have "?rl \<notin> role ` set (tdp_mmu_roots (vm s))" by simp
      with r uniq have u: "distinct (map role (sp\<lparr> root_count := 1 \<rparr> # tdp_mmu_roots (vm s)))"
        by (simp add: unique_roots_def)
      have nm: "\<And>j. j < length (threads s) \<Longrightarrow> j \<noteq> i \<Longrightarrow> snd (threads s ! j) \<noteq> Miss"
        using others in_critical_simps(2) by metis
      from u li others nm True show ?thesis
        unfolding st lock_inv_def set_thread_def unique_roots_def
        by (auto simp add: nth_list_update)
    qed
  next
    case (Unlocking x4)
    from crit [OF True] t Unlocking have li: "mmu_lock s = Some i" by simp
    have others: "\<And>j. j < length (threads s) \<Longrightarrow> j \<noteq> i \<Longrightarrow> \<not> in_critical (snd (threads s ! j))"
      using crit li by auto
    have nm: "\<And>j. j < length (threads s) \<Longrightarrow> j \<noteq> i \<Longrightarrow> snd (threads s ! j) \<noteq> Miss"
      using others in_critical_simps(2) by metis
    have st: "step a i s = set_thread i (v, Returned x4) (s\<lparr> mmu_lock := None \<rparr>)"
      using True t Unlocking by (simp add: step_def)
    from uniq others nm True show ?thesis
      unfolding st lock_inv_def set_thread_def
      by (auto simp add: nth_list_update)
  next
    case (Returned x5)
    with inv True t show ?thesis by (simp add: step_def)
  next
    case Halted
    with inv True t show ?thesis by (simp add: step_def)
  qed
qed

lemma lock_inv_run: "lock_inv a s \<Longrightarrow> lock_inv a (run a sched s)"
  by (induction sched arbitrary: s) (simp_all add: lock_inv_step)

lemma lock_inv_init: "unique_roots k \<Longrightarrow> lock_inv a (init_sys k vcpus)"
  by (simp add: lock_inv_def init_sys_def)

lemma get_root_hit:
  assumes "r \<in> set (tdp_mmu_roots k)"
    and "role r = page_role_for_level a vcpu (shadow_root_level vcpu)"
    and "unique_roots k"
  shows "\<exists>ys zs. tdp_mmu_roots k = ys @ r # zs \<and>
           get_tdp_mmu_vcpu_root a vcpu k =
             Some (r\<lparr> root_count := root_count r + 1 \<rparr>, vcpu,
                   k\<lparr> tdp_mmu_roots := ys @ r\<lparr> root_count := root_count r + 1 \<rparr> # zs \<rparr>)"
proof -
  let ?rl = "page_role_for_level a vcpu (shadow_root_level vcpu)"
  from assms(1,2) have "?rl \<in> role ` set (tdp_mmu_roots k)"
    by (metis imageI)
  then have "scan_roots ?rl (tdp_mmu_roots k) \<noteq> None"
    by (simp add: scan_roots_None)
  then obtain x rs' where sc: "scan_roots ?rl (tdp_mmu_roots k) = Some (x, rs')" by auto
  from scan_roots_Some [OF sc] obtain ys r0 zs where
    d: "tdp_mmu_roots k = ys @ r0 # zs" "?rl \<notin> role ` set ys" "role r0 = ?rl"
      "x = kvm_mmu_get_root r0" "rs' = ys @ x # zs" by blast
  from assms(3) d(1) have "distinct (map role (ys @ r0 # zs))" by (simp add: unique_roots_def)
  with assms(1,2) d(1,2,3) have "r = r0" by (auto simp add: image_iff)
  with d sc show ?thesis
    by (intro exI [of _ ys] exI [of _ zs])
       (simp add: get_tdp_mmu_vcpu_root_def kvm_mmu_get_root_def)
qed

lemma get_root_miss:
  assumes "page_role_for_level a vcpu (shadow_root_level vcpu) \<notin> role ` set (tdp_mmu_roots k)"
    and "mmu_page_header_cache vcpu \<noteq> []" "mmu_shadow_page_cache vcpu \<noteq> []"
  shows "\<exists>root vcpu'. get_tdp_mmu_vcpu_root a vcpu k =
             Some (root, vcpu', k\<lparr> tdp_mmu_roots := root # tdp_mmu_roots k \<rparr>) \<and>
           root_count root = 1 \<and> role root = page_role_for_level a vcpu (shadow_root_level vcpu) \<and>
           spt root = hd (mmu_shadow_page_cache vcpu) \<and>
           mmu_shadow_page_cache vcpu' = tl (mmu_shadow_page_cache vcpu)"
proof -
  from assms(1) have "scan_roots (page_role_for_level a vcpu (shadow_root_level vcpu)) (tdp_mmu_roots k) = None"
    by (simp add: scan_roots_None)
  moreover obtain h hs where "mmu_page_header_cache vcpu = h # hs"
    using assms(2) by (cases "mmu_page_header_cache vcpu") auto
  moreover obtain t ts where "mmu_shadow_page_cache vcpu = t # ts"
    using assms(3) by (cases "mmu_shadow_page_cache vcpu") auto
  ultimately show ?thesis
    by (simp add: get_tdp_mmu_vcpu_root_def alloc_tdp_mmu_page_def Let_def)
qed

lemma get_root_keeps_unique:
  assumes "unique_roots k" and "get_tdp_mmu_vcpu_root a vcpu k = Some (root, vcpu', k')"
  shows "unique_roots k' \<and> root \<in> set (tdp_mmu_roots k')"
  using assms
  by (auto simp add: get_tdp_mmu_vcpu_root_def unique_roots_def Let_def scan_roots_None
      dest!: scan_roots_roles alloc_role split: option.splits)

lemma step_model_agrees:
  assumes "get_tdp_mmu_vcpu_root a vcpu k = Some (root, vcpu', k')"
  shows "run a [0, 0, 0, 0] (init_sys k [vcpu]) =
           \<lparr> vm = k', mmu_lock = None, threads = [(vcpu', Returned root)] \<rparr>"
  using assms
  by (auto simp add: get_tdp_mmu_vcpu_root_def init_sys_def step_def set_thread_def Let_def
      split: option.splits)

text \<open>
  C2. From a registry whose roots have pairwise different roles, \<open>get_tdp_mmu_vcpu_root\<close>
  (i) on a root of the role of the vcpu returns that root with one more reference, updated
  in place; (ii) on a miss, with both caches stocked, returns a new root with
  \<open>root_count = 1\<close> of that role and inserts it at the head of the list; (iii) leaves
  the roles pairwise different; and (iv) any number of threads running the function under
  \<open>mmu_lock\<close>, in any interleaving of their steps, never produce two roots of one role.
\<close>

theorem get_root_unique:
  assumes "unique_roots k"
  shows "(\<forall>r \<in> set (tdp_mmu_roots k).
            role r = page_role_for_level a vcpu (shadow_root_level vcpu) \<longrightarrow>
            (\<exists>ys zs. tdp_mmu_roots k = ys @ r # zs \<and>
               get_tdp_mmu_vcpu_root a vcpu k =
                 Some (r\<lparr> root_count := root_count r + 1 \<rparr>, vcpu,
                   k\<lparr> tdp_mmu_roots := ys @ r\<lparr> root_count := root_count r + 1 \<rparr> # zs \<rparr>)))
       \<and> (page_role_for_level a vcpu (shadow_root_level vcpu) \<notin> role ` set (tdp_mmu_roots k) \<and>
          mmu_page_header_cache vcpu \<noteq> [] \<and> mmu_shadow_page_cache vcpu \<noteq> [] \<longrightarrow>
            (\<exists>root vcpu'. get_tdp_mmu_vcpu_root a vcpu k =
                 Some (root, vcpu', k\<lparr> tdp_mmu_roots := root # tdp_mmu_roots k \<rparr>) \<and>
               root_count root = 1 \<and>
               role root = page_role_for_level a vcpu (shadow_root_level vcpu) \<and>
               spt root = hd (mmu_shadow_page_cache vcpu)))
       \<and> (\<forall>root vcpu' k'. get_tdp_mmu_vcpu_root a vcpu k = Some (root, vcpu', k') \<longrightarrow>
             unique_roots k' \<and> root \<in> set (tdp_mmu_roots k'))
       \<and> (\<forall>vcpus sched. unique_roots (vm (run a sched (init_sys k vcpus))))"
proof (intro conjI ballI allI impI)
  fix r assume "r \<in> set (tdp_mmu_roots k)"
    "role r = page_role_for_level a vcpu (shadow_root_level vcpu)"
  then show "\<exists>ys zs. tdp_mmu_roots k = ys @ r # zs \<and>
               get_tdp_mmu_vcpu_root a vcpu k =
                 Some (r\<lparr> root_count := root_count r + 1 \<rparr>, vcpu,
                   k\<lparr> tdp_mmu_roots := ys @ r\<lparr> root_count := root_count r + 1 \<rparr> # zs \<rparr>)"
    using assms by (rule get_root_hit)
next
  assume "page_role_for_level a vcpu (shadow_root_level vcpu) \<notin> role ` set (tdp_mmu_roots k) \<and>
          mmu_page_header_cache vcpu \<noteq> [] \<and> mmu_shadow_page_cache vcpu \<noteq> []"
  then show "\<exists>root vcpu'. get_tdp_mmu_vcpu_root a vcpu k =
                 Some (root, vcpu', k\<lparr> tdp_mmu_roots := root # tdp_mmu_roots k \<rparr>) \<and>
               root_count root = 1 \<and>
               role root = page_role_for_level a vcpu (shadow_root_level vcpu) \<and>
               spt root = hd (mmu_shadow_page_cache vcpu)"
    using get_root_miss [of a vcpu k] by blast
next
  fix root vcpu' k'
  assume g: "get_tdp_mmu_vcpu_root a vcpu k = Some (root, vcpu', k')"
  from get_root_keeps_unique [OF assms g]
  show "unique_roots k'" "root \<in> set (tdp_mmu_roots k')" by simp_all
next
  fix vcpus sched
  from lock_inv_run [OF lock_inv_init [OF assms]]
  show "unique_roots (vm (run a sched (init_sys k vcpus)))"
    by (simp add: lock_inv_def)
qed

text \<open>
  C2, at a concrete input: two vcpus of the same role race on an empty registry; one root
  results, holding two references.
\<close>

theorem get_root_unique_witness:
  "unique_roots empty_kvm \<and>
   unique_roots (vm (run sample_arch [0, 1, 0, 1, 0, 1, 0, 1, 1, 1, 1] (init_sys empty_kvm [vcpu0, vcpu1]))) \<and>
   map root_count (tdp_mmu_roots (vm (run sample_arch [0, 1, 0, 1, 0, 1, 0, 1, 1, 1, 1]
       (init_sys empty_kvm [vcpu0, vcpu1])))) = [2]"
proof -
  have h: "unique_roots empty_kvm" by (simp add: unique_roots_def empty_kvm_def)
  have e: "map root_count (tdp_mmu_roots (vm (run sample_arch [0, 1, 0, 1, 0, 1, 0, 1, 1, 1, 1]
       (init_sys empty_kvm [vcpu0, vcpu1])))) = [2]"
    by code_simp
  from get_root_unique [OF h, of sample_arch vcpu0] h e show ?thesis by blast
qed

subsection \<open>C3: tearing down a removed subtree\<close>

text \<open>
  C3. The claim asks for the teardown of the child table whenever a present non-leaf
  entry is replaced by a leaf of the same level. The code tests
  \<open>pfn_changed || !is_present\<close> instead: a level-2 entry pointing to the table of frame 2
  that is replaced by a large leaf of frame 2 returns at once; the child table keeps its
  entries, stays on the page list and is neither flushed nor freed.
\<close>

theorem subtree_kept_under_same_frame_leaf:
  "is_shadow_present_pte sample_arch 0x2001 \<and> \<not> is_last_spte sample_arch 0x2001 2 \<and>
   spte_to_child_pt sample_arch 0x2001 2 = 8 \<and>
   is_shadow_present_pte sample_arch 0x2081 \<and> is_last_spte sample_arch 0x2081 2 \<and>
   handle_changed_spte sample_arch 5 leaky_kvm 0 0 0x2001 0x2081 2 = Done leaky_kvm \<and>
   trace leaky_kvm = [] \<and> tdp_mmu_pages leaky_kvm = [8] \<and> mem leaky_kvm 8 = 0x5001"
  by (simp add: handle_changed_spte.simps sample_simps leaky_kvm_def Let_def WARN_ON_def
      write_spte_def)

subsection \<open>What a zap writes\<close>

lemma zeroed_refl [simp]: "zeroed s s"
  by (simp add: zeroed_def)


lemma zeroed_prims [simp]:
  "zeroed s (WARN_ON b t) = zeroed s t" "zeroed s (pr_err t) = zeroed s t"
  "zeroed s (emit e t) = zeroed s t" "zeroed s (list_del q t) = zeroed s t"
  "zeroed (WARN_ON b s) t = zeroed s t" "zeroed (pr_err s) t = zeroed s t"
  "zeroed (emit e s) t = zeroed s t" "zeroed (list_del q s) t = zeroed s t"
  by (simp_all add: zeroed_def)














lemma tdp_iter_start_valid [simp]:
  "valid (tdp_iter_start a s root_pt l ml goal as_id)"
  "level (tdp_iter_start a s root_pt l ml goal as_id) = l"
  "root_level (tdp_iter_start a s root_pt l ml goal as_id) = l"
  "min_level (tdp_iter_start a s root_pt l ml goal as_id) = ml"
  "gfn (tdp_iter_start a s root_pt l ml goal as_id) = round_gfn_for_level a goal l"
  "sptep (tdp_iter_start a s root_pt l ml goal as_id) =
     root_pt + SHADOW_PT_INDEX a (round_gfn_for_level a goal l) l"
  "old_spte (tdp_iter_start a s root_pt l ml goal as_id) =
     mem s (root_pt + SHADOW_PT_INDEX a (round_gfn_for_level a goal l) l)"
  by (simp_all add: tdp_iter_start_def tdp_iter_refresh_sptep_def Let_def)

subsection \<open>C9: range arguments are not checked\<close>




subsection \<open>C5: which entries a zap clears\<close>






lemma only_dirty_simps [simp]:
  "only_dirty []" "only_dirty [SetPfnDirty p]"
  "only_dirty (xs @ ys) = (only_dirty xs \<and> only_dirty ys)"
  by (simp_all add: only_dirty_def)

lemma only_dirty_no_free: "only_dirty evs \<Longrightarrow> FreePage q \<notin> set evs"
  by (auto simp add: only_dirty_def list_all_iff)














subsection \<open>The walk of a fault\<close>

lemma word_less_succ: "(g :: 'a :: len word) + 1 \<noteq> 0 \<Longrightarrow> g < g + 1"
  by (metis add_neg_numeral_special(8) inc_less_eq_self_iff_eq verit_comp_simplify1(3))

lemma round_gfn_le: "round_gfn_for_level a g l \<le> g"
  by (simp add: round_gfn_for_level_def word_and_le2)

lemma round_gfn_in_range: "g + 1 \<noteq> 0 \<Longrightarrow> round_gfn_for_level a g l < g + 1"
  using round_gfn_le [of a g l] word_less_succ [of g] by simp

lemma index_in_table: "0 < PT64_ENT_PER_PAGE a \<Longrightarrow> SHADOW_PT_INDEX a g l < PT64_ENT_PER_PAGE a"
  by (simp add: SHADOW_PT_INDEX_def)

lemma tdp_iter_start_more [simp]:
  "goal_gfn (tdp_iter_start a s root_pt l ml goal as_id) = goal"
  "root_as_id (tdp_iter_start a s root_pt l ml goal as_id) = as_id"
  by (simp_all add: tdp_iter_start_def tdp_iter_refresh_sptep_def Let_def)

lemma next_step_down:
  assumes "level it \<noteq> min_level it"
    and "is_shadow_present_pte a (mem s (sptep it))"
    and "\<not> is_last_spte a (mem s (sptep it)) (level it)"
  shows "level (tdp_iter_next a s it) = level it - 1"
    "valid (tdp_iter_next a s it) = valid it"
    "goal_gfn (tdp_iter_next a s it) = goal_gfn it"
    "min_level (tdp_iter_next a s it) = min_level it"
    "root_as_id (tdp_iter_next a s it) = root_as_id it"
    "gfn (tdp_iter_next a s it) = round_gfn_for_level a (goal_gfn it) (level it - 1)"
    "sptep (tdp_iter_next a s it) = spte_to_child_pt a (mem s (sptep it)) (level it) +
        SHADOW_PT_INDEX a (round_gfn_for_level a (goal_gfn it) (level it - 1)) (level it - 1)"
    "old_spte (tdp_iter_next a s it) = mem s (sptep (tdp_iter_next a s it))"
  using assms
  by (simp_all add: tdp_iter_next_def try_step_down_def child_pt_def tdp_iter_refresh_sptep_def Let_def)

lemma next_step_down_replay:
  assumes "mem s'' (sptep it) = mem s (sptep it)"
    and "level it \<noteq> min_level it"
    and "is_shadow_present_pte a (mem s (sptep it))"
    and "\<not> is_last_spte a (mem s (sptep it)) (level it)"
  shows "tdp_iter_next a s'' (it\<lparr> old_spte := x \<rparr>) =
         (tdp_iter_next a s (it\<lparr> old_spte := y \<rparr>))
           \<lparr> old_spte := mem s'' (sptep (tdp_iter_next a s (it\<lparr> old_spte := y \<rparr>))) \<rparr>"
  using assms
  by (simp add: tdp_iter_next_def try_step_down_def child_pt_def tdp_iter_refresh_sptep_def Let_def)

lemma leaf_zap_frame:
  assumes "\<not> is_shadow_present_pte a 0"
    and "\<not> (is_shadow_present_pte a old \<and> \<not> is_last_spte a old lvl)"
  shows "\<exists>s' evs. handle_changed_spte a fuel s as_id g old 0 lvl = Done s' \<and> mem s' = mem s \<and>
            tdp_mmu_pages s' = tdp_mmu_pages s \<and> tdp_mmu_roots s' = tdp_mmu_roots s \<and>
            resched s' = resched s \<and> trace s' = trace s @ evs \<and> only_dirty evs"
  using assms by (auto simp add: handle_changed_spte.simps Let_def)

lemma install_frame:
  assumes "\<not> is_shadow_present_pte a old"
  shows "\<exists>s'. handle_changed_spte a fuel s as_id g old new lvl = Done s' \<and> mem s' = mem s \<and>
            tdp_mmu_pages s' = tdp_mmu_pages s \<and> tdp_mmu_roots s' = tdp_mmu_roots s \<and>
            resched s' = resched s \<and> trace s' = trace s"
  using assms by (auto simp add: handle_changed_spte.simps Let_def)

lemma map_body_link:
  assumes "is_shadow_present_pte a (old_spte it)" "\<not> is_large_pte a (old_spte it)"
  shows "map_zap_large a f s it = Ret it s" "map_install_child a m f vcpu s it = Ret vcpu s"
  using assms by (simp_all add: map_zap_large_def map_install_child_def)

lemma map_body_install:
  assumes c0: "\<not> is_shadow_present_pte a 0"
    and old: "\<not> is_shadow_present_pte a (old_spte it) \<or>
              (is_large_pte a (old_spte it) \<and> is_last_spte a (old_spte it) (level it))"
    and hc: "mmu_page_header_cache vcpu = h # hs"
    and sc: "mmu_shadow_page_cache vcpu = t # ts"
  shows "\<exists>s1 s2 y evs.
           map_zap_large a f s it = Ret (it\<lparr> old_spte := y \<rparr>) s1 \<and>
           map_install_child a m f vcpu s1 (it\<lparr> old_spte := y \<rparr>)
             = Ret (vcpu\<lparr> mmu_page_header_cache := hs, mmu_shadow_page_cache := ts \<rparr>) s2 \<and>
           mem s2 = (\<lambda>p. if p = sptep it then make_nonleaf_spte m t (shadow_accessed_mask m = 0)
                         else if t \<le> p \<and> p < t + PT64_ENT_PER_PAGE a then 0 else mem s p) \<and>
           tdp_mmu_roots s2 = tdp_mmu_roots s \<and> resched s2 = resched s \<and>
           tdp_mmu_pages s2 = t # tdp_mmu_pages s \<and>
           trace s2 = trace s @ evs \<and>
           (if is_shadow_present_pte a (old_spte it)
            then \<exists>ds. only_dirty ds \<and>
                   evs = ds @ [FlushRange (gfn it) (KVM_PAGES_PER_HPAGE a (level it))]
            else evs = [])"
proof -
  let ?new = "make_nonleaf_spte m t (shadow_accessed_mask m = 0)"
  have al: "alloc_tdp_mmu_page a vcpu (gfn it) (level it) =
        Some (\<lparr> role = page_role_for_level a vcpu (level it), sp_gfn = gfn it, spt = t,
                 root_count = 0, tdp_mmu_page = True \<rparr>,
              vcpu\<lparr> mmu_page_header_cache := hs, mmu_shadow_page_cache := ts \<rparr>)"
    by (simp add: alloc_tdp_mmu_page_def hc sc)
  have inst: "\<And>s1 y. \<not> is_shadow_present_pte a y \<Longrightarrow>
     \<exists>s2. map_install_child a m f vcpu s1 (it\<lparr> old_spte := y \<rparr>)
             = Ret (vcpu\<lparr> mmu_page_header_cache := hs, mmu_shadow_page_cache := ts \<rparr>) s2 \<and>
           mem s2 = (\<lambda>p. if p = sptep it then ?new
                         else if t \<le> p \<and> p < t + PT64_ENT_PER_PAGE a then 0 else mem s1 p) \<and>
           tdp_mmu_roots s2 = tdp_mmu_roots s1 \<and> resched s2 = resched s1 \<and>
           tdp_mmu_pages s2 = t # tdp_mmu_pages s1 \<and> trace s2 = trace s1"
  proof -
    fix s1 y
    assume np: "\<not> is_shadow_present_pte a y"
    let ?c = "clear_page a t (s1\<lparr> tdp_mmu_pages := t # tdp_mmu_pages s1 \<rparr>)"
    from install_frame [OF np, of f "write_spte (sptep it) ?new ?c" "root_as_id it" "gfn it" ?new "level it"]
    obtain s3 where h: "tdp_mmu_set_spte a f ?c (it\<lparr> old_spte := y \<rparr>) ?new = Done s3"
      and m3: "mem s3 = (mem ?c)(sptep it := ?new)"
      and p3: "tdp_mmu_pages s3 = tdp_mmu_pages ?c" and t3: "trace s3 = trace ?c"
      and r3: "tdp_mmu_roots s3 = tdp_mmu_roots ?c" and q3: "resched s3 = resched ?c"
      by (auto simp add: tdp_mmu_set_spte_def)
    show "\<exists>s2. map_install_child a m f vcpu s1 (it\<lparr> old_spte := y \<rparr>)
             = Ret (vcpu\<lparr> mmu_page_header_cache := hs, mmu_shadow_page_cache := ts \<rparr>) s2 \<and>
           mem s2 = (\<lambda>p. if p = sptep it then ?new
                         else if t \<le> p \<and> p < t + PT64_ENT_PER_PAGE a then 0 else mem s1 p) \<and>
           tdp_mmu_roots s2 = tdp_mmu_roots s1 \<and> resched s2 = resched s1 \<and>
           tdp_mmu_pages s2 = t # tdp_mmu_pages s1 \<and> trace s2 = trace s1"
      using np al h m3 p3 t3 r3 q3
      by (intro exI [of _ s3]) (auto simp add: map_install_child_def Let_def fun_eq_iff)
  qed
  show ?thesis
  proof (cases "is_shadow_present_pte a (old_spte it)")
    case False
    from inst [OF False, of s] obtain s2 where
      "map_install_child a m f vcpu s (it\<lparr> old_spte := old_spte it \<rparr>)
             = Ret (vcpu\<lparr> mmu_page_header_cache := hs, mmu_shadow_page_cache := ts \<rparr>) s2"
      "mem s2 = (\<lambda>p. if p = sptep it then ?new
                         else if t \<le> p \<and> p < t + PT64_ENT_PER_PAGE a then 0 else mem s p)"
      "tdp_mmu_roots s2 = tdp_mmu_roots s" "resched s2 = resched s"
      "tdp_mmu_pages s2 = t # tdp_mmu_pages s" "trace s2 = trace s"
      by blast
    with False show ?thesis
      by (intro exI [of _ s] exI [of _ s2] exI [of _ "old_spte it"] exI [of _ "[]"])
         (simp add: map_zap_large_def)
  next
    case True
    with old have lg: "is_large_pte a (old_spte it)" and ls: "is_last_spte a (old_spte it) (level it)"
      by auto
    from leaf_zap_frame [OF c0, of "old_spte it" "level it" f "write_spte (sptep it) 0 s"
           "root_as_id it" "gfn it"] ls
    obtain s0 ds where
      d: "tdp_mmu_set_spte a f s it 0 = Done s0" and m0: "mem s0 = (mem s)(sptep it := 0)"
      and p0: "tdp_mmu_pages s0 = tdp_mmu_pages s" and r0: "tdp_mmu_roots s0 = tdp_mmu_roots s"
      and q0: "resched s0 = resched s"
      and t0: "trace s0 = trace s @ ds" and o: "only_dirty ds"
      by (auto simp add: tdp_mmu_set_spte_def)
    let ?s1 = "emit (FlushRange (gfn it) (KVM_PAGES_PER_HPAGE a (level it))) s0"
    have z: "map_zap_large a f s it = Ret (it\<lparr> old_spte := 0 \<rparr>) ?s1"
      using True lg d m0 by (simp add: map_zap_large_def Let_def)
    from inst [OF c0, of ?s1] obtain s2 where
      i: "map_install_child a m f vcpu ?s1 (it\<lparr> old_spte := 0 \<rparr>)
             = Ret (vcpu\<lparr> mmu_page_header_cache := hs, mmu_shadow_page_cache := ts \<rparr>) s2"
      and m2: "mem s2 = (\<lambda>p. if p = sptep it then ?new
                         else if t \<le> p \<and> p < t + PT64_ENT_PER_PAGE a then 0 else mem ?s1 p)"
      and r2: "tdp_mmu_roots s2 = tdp_mmu_roots ?s1" and q2: "resched s2 = resched ?s1"
      and p2: "tdp_mmu_pages s2 = t # tdp_mmu_pages ?s1" and t2: "trace s2 = trace ?s1"
      by blast
    have m2': "mem s2 = (\<lambda>p. if p = sptep it then ?new
                         else if t \<le> p \<and> p < t + PT64_ENT_PER_PAGE a then 0 else mem s p)"
      using m2 m0 by (auto simp add: fun_eq_iff)
    show ?thesis
      using True z i m2' r2 r0 q2 q0 p2 p0 t2 t0 o
      by (intro exI [of _ ?s1] exI [of _ s2] exI [of _ 0]
            exI [of _ "ds @ [FlushRange (gfn it) (KVM_PAGES_PER_HPAGE a (level it))]"]) simp
  qed
qed

lemma map_loop_step:
  assumes "valid it" "gfn it < g + 1"
    and "(if is_nx_huge_page_enabled m
          then disallowed_hugepage_adjust m (old_spte it) g (level it) pfn lvl
          else (pfn, lvl)) = (pfn', lvl')"
    and "level it \<noteq> lvl'"
    and "map_zap_large a f s it = Ret it1 s1"
    and "map_install_child a m f vcpu s1 it1 = Ret vcpu' s2"
  shows "map_loop a m (Suc f) vcpu s it g pfn lvl w mw pf =
         map_loop a m f vcpu' s2 (tdp_iter_next a s2 it1) g pfn' lvl' w mw pf"
  using assms by simp

lemma map_loop_stop:
  assumes "valid it" "gfn it < g + 1"
    and "(if is_nx_huge_page_enabled m
          then disallowed_hugepage_adjust m (old_spte it) g (level it) pfn lvl
          else (pfn, lvl)) = (pfn', lvl')"
    and "level it = lvl'"
  shows "map_loop a m (Suc f) vcpu s it g pfn lvl w mw pf =
         map_finish a m (Suc f) vcpu s it pfn' lvl' w mw pf"
  using assms by simp

lemma walk_reaches_level:
  "walk_reaches a n s it g lvl = Some itT \<Longrightarrow> level itT = lvl"
  by (induction n arbitrary: it) (auto split: if_splits)

lemma walk_reaches_zero:
  assumes "\<not> is_shadow_present_pte a 0" "old_spte it = 0"
    and "walk_reaches a n s it g lvl = Some itT"
  shows "old_spte itT = 0"
  using assms by (cases n) (auto split: if_splits)

lemma walk_cells_stop:
  assumes "\<not> is_shadow_present_pte a (old_spte it)"
  shows "walk_cells a n s it lvl = [sptep it]"
  using assms by (cases n) auto

text \<open>
  The loop of \<open>kvm_tdp_mmu_map\<close> from a position \<open>n\<close> levels above the target level, on a
  tree whose path for \<open>g\<close> does not run into itself and with fresh tables in the cache: it
  comes to the target level, having linked a new table wherever the path ended early (after
  clearing a large leaf that was in the way); it leaves the cells of \<open>prot\<close> alone; and a
  walk that changes nothing, over the memory it leaves, comes to the same entry.
\<close>

lemma fault_walk:
  assumes c0: "\<not> is_shadow_present_pte a 0"
    and cN: "0 < PT64_ENT_PER_PAGE a"
    and c_last: "\<forall>pte l. lvl < l \<longrightarrow> is_shadow_present_pte a pte \<longrightarrow>
                    is_last_spte a pte l = is_large_pte a pte"
    and nx: "is_nx_huge_page_enabled m \<longrightarrow>
               (\<forall>spte l. disallowed_hugepage_adjust m spte g l pfn lvl = (pfn, lvl))"
    and g1: "g + 1 \<noteq> 0"
  shows "valid it \<Longrightarrow> goal_gfn it = g \<Longrightarrow> gfn it = round_gfn_for_level a g (level it) \<Longrightarrow>
         min_level it \<le> lvl \<Longrightarrow> level it = lvl + int n \<Longrightarrow> old_spte it = mem s (sptep it) \<Longrightarrow>
         distinct (walk_cells a n s it lvl) \<Longrightarrow> set (walk_cells a n s it lvl) \<subseteq> set used \<Longrightarrow>
         prot \<subseteq> set used \<Longrightarrow> set (walk_cells a n s it lvl) \<inter> prot = {} \<Longrightarrow>
         fresh_tables a (mmu_shadow_page_cache vcpu) used \<Longrightarrow>
         n \<le> length (mmu_page_header_cache vcpu) \<Longrightarrow> n \<le> length (mmu_shadow_page_cache vcpu) \<Longrightarrow>
         \<forall>t \<in> set (mmu_shadow_page_cache vcpu).
            is_shadow_present_pte a (make_nonleaf_spte m t (shadow_accessed_mask m = 0)) \<and>
            \<not> is_large_pte a (make_nonleaf_spte m t (shadow_accessed_mask m = 0)) \<and>
            (\<forall>l. lvl < l \<longrightarrow>
               spte_to_child_pt a (make_nonleaf_spte m t (shadow_accessed_mask m = 0)) l = t) \<Longrightarrow>
         n < fuel \<Longrightarrow>
         \<exists>f' vcpu' s' itT.
            map_loop a m fuel vcpu s it g pfn lvl w mw pf
              = map_finish a m f' vcpu' s' itT pfn lvl w mw pf \<and>
            level itT = lvl \<and> gfn itT = round_gfn_for_level a g lvl \<and>
            root_as_id itT = root_as_id it \<and>
            old_spte itT = mem s' (sptep itT) \<and> sptep itT \<notin> prot \<and>
            (\<forall>p \<in> prot. mem s' p = mem s p) \<and>
            (old_spte itT = 0 \<or> walk_reaches a n s it g lvl = Some itT) \<and>
            tdp_mmu_roots s' = tdp_mmu_roots s \<and> root_hpa vcpu' = root_hpa vcpu \<and>
            shadow_root_level vcpu' = shadow_root_level vcpu \<and> pf_fixed vcpu' = pf_fixed vcpu \<and>
            (\<forall>s''. (\<forall>p. p \<noteq> sptep itT \<longrightarrow> mem s'' p = mem s' p) \<longrightarrow>
               (\<exists>it2. walk_reaches a n s'' (it\<lparr> old_spte := mem s'' (sptep it) \<rparr>) g lvl = Some it2 \<and>
                      sptep it2 = sptep itT \<and> gfn it2 = gfn itT \<and>
                      old_spte it2 = mem s'' (sptep itT)))"
proof (induction n arbitrary: it s vcpu used prot fuel)
  case 0
  then obtain f where f: "fuel = Suc f" by (cases fuel) auto
  from 0 have lv: "level it = lvl" by simp
  have rg: "gfn it < g + 1" using 0(3) round_gfn_in_range [OF g1] by simp
  have adj: "(if is_nx_huge_page_enabled m
          then disallowed_hugepage_adjust m (old_spte it) g (level it) pfn lvl
          else (pfn, lvl)) = (pfn, lvl)" using nx by simp
  have ml: "map_loop a m fuel vcpu s it g pfn lvl w mw pf
              = map_finish a m (Suc f) vcpu s it pfn lvl w mw pf"
    unfolding f by (rule map_loop_stop [OF 0(1) rg adj lv])
  have np: "sptep it \<notin> prot" using 0(10) by simp
  have wr: "walk_reaches a 0 s it g lvl = Some it" using 0(1) rg lv by simp
  have rp: "\<forall>s''. (\<forall>p. p \<noteq> sptep it \<longrightarrow> mem s'' p = mem s p) \<longrightarrow>
               (\<exists>it2. walk_reaches a 0 s'' (it\<lparr> old_spte := mem s'' (sptep it) \<rparr>) g lvl = Some it2 \<and>
                      sptep it2 = sptep it \<and> gfn it2 = gfn it \<and>
                      old_spte it2 = mem s'' (sptep it))"
    using 0(1) rg lv by simp
  show ?case
    using ml lv 0(3,6) np wr rp
    by (intro exI [of _ "Suc f"] exI [of _ vcpu] exI [of _ s] exI [of _ it]) simp
next
  case (Suc k)
  then obtain f where f: "fuel = Suc f" and kf: "k < f" by (cases fuel) auto
  let ?c = "sptep it"
  have lv: "level it = lvl + 1 + int k" using Suc.prems(5) by simp
  then have lvn: "level it \<noteq> lvl" and lvg: "lvl < level it" by simp_all
  have lmin: "level it \<noteq> min_level it" using Suc.prems(4) lvg by simp
  have rg: "gfn it < g + 1" using Suc.prems(3) round_gfn_in_range [OF g1] by simp
  have adj: "(if is_nx_huge_page_enabled m
          then disallowed_hugepage_adjust m (old_spte it) g (level it) pfn lvl
          else (pfn, lvl)) = (pfn, lvl)" using nx by simp
  show ?case
  proof (cases "is_shadow_present_pte a (old_spte it) \<and> \<not> is_large_pte a (old_spte it)")
    case True
    then have pr: "is_shadow_present_pte a (mem s ?c)" and nl: "\<not> is_last_spte a (mem s ?c) (level it)"
      using Suc.prems(6) c_last lvg by auto
    let ?it' = "tdp_iter_next a s it"
    note nd = next_step_down [OF lmin pr nl]
    have wc: "walk_cells a (Suc k) s it lvl = ?c # walk_cells a k s ?it' lvl"
      using True lvn by simp
    have ml: "map_loop a m fuel vcpu s it g pfn lvl w mw pf
              = map_loop a m f vcpu s ?it' g pfn lvl w mw pf"
      unfolding f using True
      by (intro map_loop_step [OF Suc.prems(1) rg adj lvn, where ?s1.0 = s and ?it1.0 = it])
         (simp_all add: map_body_link)
    have h1: "valid ?it'" using nd Suc.prems(1) by simp
    have h2: "goal_gfn ?it' = g" using nd Suc.prems(2) by simp
    have h3: "gfn ?it' = round_gfn_for_level a g (level ?it')" using nd Suc.prems(2) by simp
    have h4: "min_level ?it' \<le> lvl" using nd Suc.prems(4) by simp
    have h5: "level ?it' = lvl + int k" using nd lv by simp
    have h6: "old_spte ?it' = mem s (sptep ?it')" using nd by simp
    have h7: "distinct (walk_cells a k s ?it' lvl)" using Suc.prems(7) wc by simp
    have h8: "set (walk_cells a k s ?it' lvl) \<subseteq> set used" using Suc.prems(8) wc by simp
    have h9: "prot \<union> {?c} \<subseteq> set used" using Suc.prems(8,9) wc by simp
    have h10: "set (walk_cells a k s ?it' lvl) \<inter> (prot \<union> {?c}) = {}"
      using Suc.prems(7,10) wc by auto
    have h12: "k \<le> length (mmu_page_header_cache vcpu)" "k \<le> length (mmu_shadow_page_cache vcpu)"
      using Suc.prems(12,13) by simp_all
    from Suc.IH [OF h1 h2 h3 h4 h5 h6 h7 h8 h9 h10 Suc.prems(11) h12 Suc.prems(14) kf]
    obtain f' vcpu' s' itT where
      r1: "map_loop a m f vcpu s ?it' g pfn lvl w mw pf
              = map_finish a m f' vcpu' s' itT pfn lvl w mw pf"
      and r2: "level itT = lvl" "gfn itT = round_gfn_for_level a g lvl"
        "root_as_id itT = root_as_id ?it'" "old_spte itT = mem s' (sptep itT)"
      and r3: "sptep itT \<notin> prot \<union> {?c}"
      and r4: "\<forall>p \<in> prot \<union> {?c}. mem s' p = mem s p"
      and r5: "old_spte itT = 0 \<or> walk_reaches a k s ?it' g lvl = Some itT"
      and r6: "tdp_mmu_roots s' = tdp_mmu_roots s" "root_hpa vcpu' = root_hpa vcpu"
        "shadow_root_level vcpu' = shadow_root_level vcpu" "pf_fixed vcpu' = pf_fixed vcpu"
      and r7: "\<forall>s''. (\<forall>p. p \<noteq> sptep itT \<longrightarrow> mem s'' p = mem s' p) \<longrightarrow>
               (\<exists>it2. walk_reaches a k s'' (?it'\<lparr> old_spte := mem s'' (sptep ?it') \<rparr>) g lvl = Some it2 \<and>
                      sptep it2 = sptep itT \<and> gfn it2 = gfn itT \<and>
                      old_spte it2 = mem s'' (sptep itT))"
      by blast
    have w5: "old_spte itT = 0 \<or> walk_reaches a (Suc k) s it g lvl = Some itT"
      using r5 True lvn Suc.prems(1) rg by simp
    have w7: "\<forall>s''. (\<forall>p. p \<noteq> sptep itT \<longrightarrow> mem s'' p = mem s' p) \<longrightarrow>
               (\<exists>it2. walk_reaches a (Suc k) s'' (it\<lparr> old_spte := mem s'' ?c \<rparr>) g lvl = Some it2 \<and>
                      sptep it2 = sptep itT \<and> gfn it2 = gfn itT \<and>
                      old_spte it2 = mem s'' (sptep itT))"
    proof (intro allI impI)
      fix s'' :: kvm
      assume ag: "\<forall>p. p \<noteq> sptep itT \<longrightarrow> mem s'' p = mem s' p"
      from r3 have "?c \<noteq> sptep itT" by auto
      with ag r4 have mc: "mem s'' ?c = mem s ?c" by simp
      from next_step_down_replay [OF mc lmin pr nl, of "mem s'' ?c" "old_spte it"]
      have nx': "tdp_iter_next a s'' (it\<lparr> old_spte := mem s'' ?c \<rparr>)
                  = ?it'\<lparr> old_spte := mem s'' (sptep ?it') \<rparr>" by simp
      from r7 ag obtain it2 where
        "walk_reaches a k s'' (?it'\<lparr> old_spte := mem s'' (sptep ?it') \<rparr>) g lvl = Some it2"
        "sptep it2 = sptep itT" "gfn it2 = gfn itT" "old_spte it2 = mem s'' (sptep itT)"
        by blast
      then show "\<exists>it2. walk_reaches a (Suc k) s'' (it\<lparr> old_spte := mem s'' ?c \<rparr>) g lvl = Some it2 \<and>
                      sptep it2 = sptep itT \<and> gfn it2 = gfn itT \<and>
                      old_spte it2 = mem s'' (sptep itT)"
        using True lvn Suc.prems(1,6) rg mc nx' by simp
    qed
    show ?thesis
      using ml r1 r2 r3 r4 w5 r6 w7 nd(5)
      by (intro exI [of _ f'] exI [of _ vcpu'] exI [of _ s'] exI [of _ itT]) simp
  next
    case False
    then have old: "\<not> is_shadow_present_pte a (old_spte it) \<or>
              (is_large_pte a (old_spte it) \<and> is_last_spte a (old_spte it) (level it))"
      using c_last lvg by auto
    from Suc.prems(12,13) obtain h hs t ts where
      hc: "mmu_page_header_cache vcpu = h # hs" and sc: "mmu_shadow_page_cache vcpu = t # ts"
      by (cases "mmu_page_header_cache vcpu"; cases "mmu_shadow_page_cache vcpu") auto
    let ?new = "make_nonleaf_spte m t (shadow_accessed_mask m = 0)"
    let ?v = "vcpu\<lparr> mmu_page_header_cache := hs, mmu_shadow_page_cache := ts \<rparr>"
    from map_body_install [OF c0 old hc sc, of f s m]
    obtain s1 s2 y where
      z: "map_zap_large a f s it = Ret (it\<lparr> old_spte := y \<rparr>) s1"
      and i: "map_install_child a m f vcpu s1 (it\<lparr> old_spte := y \<rparr>) = Ret ?v s2"
      and m2: "mem s2 = (\<lambda>p. if p = ?c then ?new
                         else if t \<le> p \<and> p < t + PT64_ENT_PER_PAGE a then 0 else mem s p)"
      and ro: "tdp_mmu_roots s2 = tdp_mmu_roots s"
      by blast
    have wc: "walk_cells a (Suc k) s it lvl = [?c]" using False lvn by simp
    have cu: "?c \<in> set used" using Suc.prems(8) wc by simp
    from Suc.prems(11) sc have
      fr: "\<forall>p \<in> set used. p < t \<or> t + PT64_ENT_PER_PAGE a \<le> p"
      and ft: "fresh_tables a ts ([t ..< t + PT64_ENT_PER_PAGE a] @ used)" by simp_all
    from Suc.prems(14) sc have
      np: "is_shadow_present_pte a ?new" "\<not> is_large_pte a ?new"
      and ch: "\<forall>l. lvl < l \<longrightarrow> spte_to_child_pt a ?new l = t" by simp_all
    have mc: "mem s2 ?c = ?new" using m2 by simp
    let ?it1 = "it\<lparr> old_spte := y \<rparr>"
    let ?it' = "tdp_iter_next a s2 ?it1"
    have pr: "is_shadow_present_pte a (mem s2 (sptep ?it1))"
      and nl: "\<not> is_last_spte a (mem s2 (sptep ?it1)) (level ?it1)"
      using mc np c_last lvg by auto
    have lmin1: "level ?it1 \<noteq> min_level ?it1" using lmin by simp
    note nd = next_step_down [OF lmin1 pr nl]
    let ?ix = "SHADOW_PT_INDEX a (round_gfn_for_level a g (level it - 1)) (level it - 1)"
    have sp: "sptep ?it' = t + ?ix" using nd(7) mc ch lvg Suc.prems(2) by simp
    have ix: "?ix < PT64_ENT_PER_PAGE a" by (rule index_in_table [OF cN])
    have nin: "t + ?ix \<notin> set used"
    proof
      assume "t + ?ix \<in> set used"
      with fr have "t + ?ix < t \<or> t + PT64_ENT_PER_PAGE a \<le> t + ?ix" by blast
      with ix show False by simp
    qed
    have ne: "t + ?ix \<noteq> ?c" using nin cu by auto
    have o': "old_spte ?it' = 0" using nd(8) sp m2 ix ne by simp
    have ml: "map_loop a m fuel vcpu s it g pfn lvl w mw pf
              = map_loop a m f ?v s2 ?it' g pfn lvl w mw pf"
      unfolding f by (rule map_loop_step [OF Suc.prems(1) rg adj lvn z i])
    have wc': "walk_cells a k s2 ?it' lvl = [t + ?ix]"
      using walk_cells_stop [of a ?it' k s2 lvl] o' c0 sp by simp
    let ?used = "[t ..< t + PT64_ENT_PER_PAGE a] @ used"
    have h1: "valid ?it'" using nd Suc.prems(1) by simp
    have h2: "goal_gfn ?it' = g" using nd Suc.prems(2) by simp
    have h3: "gfn ?it' = round_gfn_for_level a g (level ?it')" using nd Suc.prems(2) by simp
    have h4: "min_level ?it' \<le> lvl" using nd Suc.prems(4) by simp
    have h5: "level ?it' = lvl + int k" using nd lv by simp
    have h6: "old_spte ?it' = mem s2 (sptep ?it')" using nd by simp
    have h7: "distinct (walk_cells a k s2 ?it' lvl)" using wc' by simp
    have h8: "set (walk_cells a k s2 ?it' lvl) \<subseteq> set ?used" using wc' ix by simp
    have h9: "prot \<union> {?c} \<subseteq> set ?used" using Suc.prems(9) cu by auto
    have h10: "set (walk_cells a k s2 ?it' lvl) \<inter> (prot \<union> {?c}) = {}"
      using wc' ne nin Suc.prems(9) by auto
    have h11: "fresh_tables a (mmu_shadow_page_cache ?v) ?used" using ft by simp
    have h12: "k \<le> length (mmu_page_header_cache ?v)" "k \<le> length (mmu_shadow_page_cache ?v)"
      using Suc.prems(12,13) hc sc by simp_all
    have h14: "\<forall>t \<in> set (mmu_shadow_page_cache ?v).
            is_shadow_present_pte a (make_nonleaf_spte m t (shadow_accessed_mask m = 0)) \<and>
            \<not> is_large_pte a (make_nonleaf_spte m t (shadow_accessed_mask m = 0)) \<and>
            (\<forall>l. lvl < l \<longrightarrow>
               spte_to_child_pt a (make_nonleaf_spte m t (shadow_accessed_mask m = 0)) l = t)"
      using Suc.prems(14) sc by simp
    from Suc.IH [OF h1 h2 h3 h4 h5 h6 h7 h8 h9 h10 h11 h12 h14 kf]
    obtain f' vcpu' s' itT where
      r1: "map_loop a m f ?v s2 ?it' g pfn lvl w mw pf
              = map_finish a m f' vcpu' s' itT pfn lvl w mw pf"
      and r2: "level itT = lvl" "gfn itT = round_gfn_for_level a g lvl"
        "root_as_id itT = root_as_id ?it'" "old_spte itT = mem s' (sptep itT)"
      and r3: "sptep itT \<notin> prot \<union> {?c}"
      and r4: "\<forall>p \<in> prot \<union> {?c}. mem s' p = mem s2 p"
      and r5: "old_spte itT = 0 \<or> walk_reaches a k s2 ?it' g lvl = Some itT"
      and r6: "tdp_mmu_roots s' = tdp_mmu_roots s2" "root_hpa vcpu' = root_hpa ?v"
        "shadow_root_level vcpu' = shadow_root_level ?v" "pf_fixed vcpu' = pf_fixed ?v"
      and r7: "\<forall>s''. (\<forall>p. p \<noteq> sptep itT \<longrightarrow> mem s'' p = mem s' p) \<longrightarrow>
               (\<exists>it2. walk_reaches a k s'' (?it'\<lparr> old_spte := mem s'' (sptep ?it') \<rparr>) g lvl = Some it2 \<and>
                      sptep it2 = sptep itT \<and> gfn it2 = gfn itT \<and>
                      old_spte it2 = mem s'' (sptep itT))"
      by blast
    have w4: "\<forall>p \<in> prot. mem s' p = mem s p"
    proof
      fix p assume p: "p \<in> prot"
      with Suc.prems(9,10) wc fr have "p \<noteq> ?c" "p < t \<or> t + PT64_ENT_PER_PAGE a \<le> p" by auto
      with m2 have "mem s2 p = mem s p" by auto
      with r4 p show "mem s' p = mem s p" by simp
    qed
    have w5: "old_spte itT = 0"
      using r5 walk_reaches_zero [OF c0 o'] by blast
    have w7: "\<forall>s''. (\<forall>p. p \<noteq> sptep itT \<longrightarrow> mem s'' p = mem s' p) \<longrightarrow>
               (\<exists>it2. walk_reaches a (Suc k) s'' (it\<lparr> old_spte := mem s'' ?c \<rparr>) g lvl = Some it2 \<and>
                      sptep it2 = sptep itT \<and> gfn it2 = gfn itT \<and>
                      old_spte it2 = mem s'' (sptep itT))"
    proof (intro allI impI)
      fix s'' :: kvm
      assume ag: "\<forall>p. p \<noteq> sptep itT \<longrightarrow> mem s'' p = mem s' p"
      from r3 have "?c \<noteq> sptep itT" by auto
      with ag r4 have mc'': "mem s'' ?c = mem s2 ?c" by simp
      have pr2: "is_shadow_present_pte a (mem s2 (sptep it))"
        and nl2: "\<not> is_last_spte a (mem s2 (sptep it)) (level it)"
        using pr nl by simp_all
      from next_step_down_replay [OF mc'' lmin pr2 nl2, of "mem s'' ?c" y]
      have nx': "tdp_iter_next a s'' (it\<lparr> old_spte := mem s'' ?c \<rparr>)
                  = ?it'\<lparr> old_spte := mem s'' (sptep ?it') \<rparr>" by simp
      from r7 ag obtain it2 where
        "walk_reaches a k s'' (?it'\<lparr> old_spte := mem s'' (sptep ?it') \<rparr>) g lvl = Some it2"
        "sptep it2 = sptep itT" "gfn it2 = gfn itT" "old_spte it2 = mem s'' (sptep itT)"
        by blast
      then show "\<exists>it2. walk_reaches a (Suc k) s'' (it\<lparr> old_spte := mem s'' ?c \<rparr>) g lvl = Some it2 \<and>
                      sptep it2 = sptep itT \<and> gfn it2 = gfn itT \<and>
                      old_spte it2 = mem s'' (sptep itT)"
        using lvn Suc.prems(1) rg mc'' mc np nx' by simp
    qed
    show ?thesis
      using ml r1 r2 r3 w4 w5 r6 ro w7 nd(5)
      by (intro exI [of _ f'] exI [of _ vcpu'] exI [of _ s'] exI [of _ itT]) simp
  qed
qed



lemma fault_walk_start_replay:
  assumes "root_hpa v' = root_hpa v" "shadow_root_level v' = shadow_root_level v"
    and "tdp_mmu_roots s' = tdp_mmu_roots s"
  shows "fault_walk_start a m v' s' g =
         (fault_walk_start a m v s g)\<lparr> old_spte := mem s' (sptep (fault_walk_start a m v s g)) \<rparr>"
  using assms
  by (simp add: fault_walk_start_def tdp_iter_start_def tdp_iter_refresh_sptep_def Let_def
      to_shadow_page_def)

lemma is_tdp_mmu_root_cong:
  "tdp_mmu_roots s' = tdp_mmu_roots s \<Longrightarrow> is_tdp_mmu_root m s' h = is_tdp_mmu_root m s h"
  by (simp add: is_tdp_mmu_root_def to_shadow_page_def)

lemma map_loop_follows_walk:
  assumes nx: "is_nx_huge_page_enabled m \<longrightarrow>
               (\<forall>spte l. disallowed_hugepage_adjust m spte g l pfn lvl = (pfn, lvl))"
  shows "walk_reaches a n s it g lvl = Some itT \<Longrightarrow> n < fuel \<Longrightarrow>
         \<exists>f'. map_loop a m fuel vcpu s it g pfn lvl w mw pf
                 = map_finish a m f' vcpu s itT pfn lvl w mw pf"
proof (induction n arbitrary: it fuel)
  case 0
  then obtain f where f: "fuel = Suc f" by (cases fuel) auto
  from 0 show ?case
    unfolding f using nx by (auto split: if_splits)
next
  case (Suc n)
  then obtain f where f: "fuel = Suc f" and nf: "n < f" by (cases fuel) auto
  from Suc.prems(1) have v: "valid it" "gfn it < g + 1" by (auto split: if_splits)
  have adj: "(if is_nx_huge_page_enabled m
          then disallowed_hugepage_adjust m (old_spte it) g (level it) pfn lvl
          else (pfn, lvl)) = (pfn, lvl)" using nx by simp
  show ?case
  proof (cases "level it = lvl")
    case True
    with Suc.prems(1) v have "itT = it" by simp
    with map_loop_stop [OF v adj True] show ?thesis unfolding f by blast
  next
    case False
    with Suc.prems(1) v have p: "is_shadow_present_pte a (old_spte it)"
      "\<not> is_large_pte a (old_spte it)"
      and w: "walk_reaches a n s (tdp_iter_next a s it) g lvl = Some itT"
      by (auto split: if_splits)
    from Suc.IH [OF w nf] obtain f' where
      "map_loop a m f vcpu s (tdp_iter_next a s it) g pfn lvl w mw pf
                 = map_finish a m f' vcpu s itT pfn lvl w mw pf" by blast
    with map_loop_step [OF v adj False map_body_link [OF p]] show ?thesis
      unfolding f by auto
  qed
qed

lemma fault_walk_from_root:
  assumes c0: "\<not> is_shadow_present_pte a 0"
    and cN: "0 < PT64_ENT_PER_PAGE a"
    and c_last: "\<forall>pte l. lvl < l \<longrightarrow> is_shadow_present_pte a pte \<longrightarrow>
                    is_last_spte a pte l = is_large_pte a pte"
    and nx: "is_nx_huge_page_enabled m \<longrightarrow>
               (\<forall>spte l. disallowed_hugepage_adjust m spte g l pfn lvl = (pfn, lvl))"
    and g1: "g + 1 \<noteq> 0"
    and nl: "\<forall>t \<in> set (mmu_shadow_page_cache vcpu).
            is_shadow_present_pte a (make_nonleaf_spte m t (shadow_accessed_mask m = 0)) \<and>
            \<not> is_large_pte a (make_nonleaf_spte m t (shadow_accessed_mask m = 0)) \<and>
            (\<forall>l. lvl < l \<longrightarrow>
               spte_to_child_pt a (make_nonleaf_spte m t (shadow_accessed_mask m = 0)) l = t)"
    and lv: "PG_LEVEL_4K a \<le> lvl" "lvl \<le> shadow_root_level vcpu"
    and n: "n = nat (shadow_root_level vcpu - lvl)"
    and caches: "n \<le> length (mmu_page_header_cache vcpu)" "n \<le> length (mmu_shadow_page_cache vcpu)"
    and shape: "distinct (walk_cells a n s (fault_walk_start a m vcpu s g) lvl)"
      "fresh_tables a (mmu_shadow_page_cache vcpu) (walk_cells a n s (fault_walk_start a m vcpu s g) lvl)"
    and fuel: "n < fuel"
  shows "\<exists>f' vcpu' s' itT.
            map_loop a m fuel vcpu s (fault_walk_start a m vcpu s g) g pfn lvl w mw pf
              = map_finish a m f' vcpu' s' itT pfn lvl w mw pf \<and>
            level itT = lvl \<and> gfn itT = round_gfn_for_level a g lvl \<and>
            old_spte itT = mem s' (sptep itT) \<and>
            (old_spte itT = 0 \<or> walk_reaches a n s (fault_walk_start a m vcpu s g) g lvl = Some itT) \<and>
            tdp_mmu_roots s' = tdp_mmu_roots s \<and> root_hpa vcpu' = root_hpa vcpu \<and>
            shadow_root_level vcpu' = shadow_root_level vcpu \<and> pf_fixed vcpu' = pf_fixed vcpu \<and>
            (\<forall>s'' v''. (\<forall>p. p \<noteq> sptep itT \<longrightarrow> mem s'' p = mem s' p) \<and>
                 tdp_mmu_roots s'' = tdp_mmu_roots s \<and> root_hpa v'' = root_hpa vcpu \<and>
                 shadow_root_level v'' = shadow_root_level vcpu \<longrightarrow>
               (\<exists>it2. walk_reaches a n s'' (fault_walk_start a m v'' s'' g) g lvl = Some it2 \<and>
                      sptep it2 = sptep itT \<and> gfn it2 = gfn itT \<and>
                      old_spte it2 = mem s'' (sptep itT)))"
proof -
  let ?it = "fault_walk_start a m vcpu s g"
  have h: "valid ?it" "goal_gfn ?it = g" "gfn ?it = round_gfn_for_level a g (level ?it)"
    "min_level ?it \<le> lvl" "level ?it = lvl + int n" "old_spte ?it = mem s (sptep ?it)"
    using lv n by (simp_all add: fault_walk_start_def)
  have e: "set (walk_cells a n s ?it lvl) \<subseteq> set (walk_cells a n s ?it lvl)" "{} \<subseteq> set (walk_cells a n s ?it lvl)"
    "set (walk_cells a n s ?it lvl) \<inter> {} = {}" by simp_all
  from fault_walk [OF c0 cN c_last nx g1 h shape(1) e shape(2) caches nl fuel, of w mw pf]
  obtain f' vcpu' s' itT where
      r1: "map_loop a m fuel vcpu s ?it g pfn lvl w mw pf
              = map_finish a m f' vcpu' s' itT pfn lvl w mw pf"
      and r2: "level itT = lvl" "gfn itT = round_gfn_for_level a g lvl"
        "old_spte itT = mem s' (sptep itT)"
      and r5: "old_spte itT = 0 \<or> walk_reaches a n s ?it g lvl = Some itT"
      and r6: "tdp_mmu_roots s' = tdp_mmu_roots s" "root_hpa vcpu' = root_hpa vcpu"
        "shadow_root_level vcpu' = shadow_root_level vcpu" "pf_fixed vcpu' = pf_fixed vcpu"
      and r7: "\<forall>s''. (\<forall>p. p \<noteq> sptep itT \<longrightarrow> mem s'' p = mem s' p) \<longrightarrow>
               (\<exists>it2. walk_reaches a n s'' (?it\<lparr> old_spte := mem s'' (sptep ?it) \<rparr>) g lvl = Some it2 \<and>
                      sptep it2 = sptep itT \<and> gfn it2 = gfn itT \<and>
                      old_spte it2 = mem s'' (sptep itT))"
    by blast
  have w7: "\<forall>s'' v''. (\<forall>p. p \<noteq> sptep itT \<longrightarrow> mem s'' p = mem s' p) \<and>
                 tdp_mmu_roots s'' = tdp_mmu_roots s \<and> root_hpa v'' = root_hpa vcpu \<and>
                 shadow_root_level v'' = shadow_root_level vcpu \<longrightarrow>
               (\<exists>it2. walk_reaches a n s'' (fault_walk_start a m v'' s'' g) g lvl = Some it2 \<and>
                      sptep it2 = sptep itT \<and> gfn it2 = gfn itT \<and>
                      old_spte it2 = mem s'' (sptep itT))"
  proof (intro allI impI)
    fix s'' :: kvm and v'' :: kvm_vcpu
    assume ag: "(\<forall>p. p \<noteq> sptep itT \<longrightarrow> mem s'' p = mem s' p) \<and>
                 tdp_mmu_roots s'' = tdp_mmu_roots s \<and> root_hpa v'' = root_hpa vcpu \<and>
                 shadow_root_level v'' = shadow_root_level vcpu"
    then have "fault_walk_start a m v'' s'' g = ?it\<lparr> old_spte := mem s'' (sptep ?it) \<rparr>"
      by (intro fault_walk_start_replay) simp_all
    with r7 ag show "\<exists>it2. walk_reaches a n s'' (fault_walk_start a m v'' s'' g) g lvl = Some it2 \<and>
                      sptep it2 = sptep itT \<and> gfn it2 = gfn itT \<and>
                      old_spte it2 = mem s'' (sptep itT)" by simp
  qed
  from r1 r2 r5 r6 w7 show ?thesis by blast
qed

lemma target_level_installs:
  assumes "\<not> is_noslot_pfn m pfn"
    and "make_spte m (ACC_ALL a) (level it) (gfn it) pfn (old_spte it) pf True mw
           (shadow_accessed_mask m = 0) = (ret, new)"
    and "ret AND SET_SPTE_WRITE_PROTECTED_PT m = 0"
    and "\<not> is_mmio_spte a new"
    and "new \<noteq> old_spte it"
    and "\<not> is_shadow_present_pte a (old_spte it)"
  shows "\<exists>s'. tdp_mmu_map_handle_target_level a m f vcpu s w mw it pfn pf
           = Ret (0, if \<not> pf then vcpu\<lparr> pf_fixed := pf_fixed vcpu + 1 \<rparr> else vcpu) s' \<and>
           mem s' = (mem s)(sptep it := new) \<and> tdp_mmu_roots s' = tdp_mmu_roots s \<and>
           tdp_mmu_pages s' = tdp_mmu_pages s \<and> trace s' = trace s"
proof -
  from install_frame [OF assms(6), of f "write_spte (sptep it) new s" "root_as_id it" "gfn it" new
         "level it"]
  obtain s1 where "tdp_mmu_set_spte a f s it new = Done s1" "mem s1 = (mem s)(sptep it := new)"
    "tdp_mmu_roots s1 = tdp_mmu_roots s" "tdp_mmu_pages s1 = tdp_mmu_pages s" "trace s1 = trace s"
    by (auto simp add: tdp_mmu_set_spte_def)
  with assms(1-5) show ?thesis
    by (intro exI [of _ s1]) (simp add: tdp_mmu_map_handle_target_level_def Let_def)
qed

lemma target_level_spurious:
  assumes "\<not> is_noslot_pfn m pfn"
    and "make_spte m (ACC_ALL a) (level it) (gfn it) pfn (old_spte it) pf True mw
           (shadow_accessed_mask m = 0) = (ret, old_spte it)"
    and "ret AND SET_SPTE_WRITE_PROTECTED_PT m = 0"
    and "\<not> is_mmio_spte a (old_spte it)"
  shows "tdp_mmu_map_handle_target_level a m f vcpu s w mw it pfn pf
           = Ret (RET_PF_SPURIOUS m, if \<not> pf then vcpu\<lparr> pf_fixed := pf_fixed vcpu + 1 \<rparr> else vcpu) s"
  using assms by (simp add: tdp_mmu_map_handle_target_level_def Let_def)

text \<open>The sample instance meets the assumptions on the codec and on the shape of the tree.\<close>

lemma sample_codec:
  "\<not> is_shadow_present_pte sample_arch 0" "0 < PT64_ENT_PER_PAGE sample_arch"
  "\<forall>pte l. 1 < l \<longrightarrow> is_shadow_present_pte sample_arch pte \<longrightarrow>
      is_last_spte sample_arch pte l = is_large_pte sample_arch pte"
  "\<forall>pte. is_shadow_present_pte sample_arch pte \<longrightarrow> is_last_spte sample_arch pte 1"
  by (simp_all add: sample_arch_def)

lemma sample_links:
  "\<forall>t \<in> set (mmu_shadow_page_cache vcpu2).
      is_shadow_present_pte sample_arch (make_nonleaf_spte sample_mmu t (shadow_accessed_mask sample_mmu = 0)) \<and>
      \<not> is_large_pte sample_arch (make_nonleaf_spte sample_mmu t (shadow_accessed_mask sample_mmu = 0)) \<and>
      (\<forall>l. 1 < l \<longrightarrow>
         spte_to_child_pt sample_arch (make_nonleaf_spte sample_mmu t (shadow_accessed_mask sample_mmu = 0)) l = t)"
proof -
  have e: "make_nonleaf_spte sample_mmu 40 True = 0xa001" "make_nonleaf_spte sample_mmu 44 True = 0xb001"
    by (simp_all add: sample_mmu_def)
  have p: "sample_pfn 0xa001 = 10" "sample_pfn 0xb001 = 11"
    "\<not> sample_mmio 0xa001" "\<not> sample_mmio 0xb001" "\<not> bit (0xa001 :: u64) 7" "\<not> bit (0xb001 :: u64) 7"
    by code_simp+
  have s: "shadow_accessed_mask sample_mmu = 0" by (simp add: sample_mmu_def)
  show ?thesis
    by (simp add: vcpu2_def s e) (simp add: sample_arch_def p)
qed

lemma sample_root:
  "VALID_PAGE sample_mmu (root_hpa vcpu2)" "is_tdp_mmu_root sample_mmu bare_root (root_hpa vcpu2)"
  "drop_bit (PAGE_SHIFT sample_mmu) (0x5000 :: u64) = 5"
  "PG_LEVEL_4K sample_arch \<le> 1" "1 \<le> shadow_root_level vcpu2"
  "(1 :: nat) = nat (shadow_root_level vcpu2 - 1)"
  "1 \<le> length (mmu_page_header_cache vcpu2)" "1 \<le> length (mmu_shadow_page_cache vcpu2)"
  by (simp_all add: sample_mmu_def vcpu2_def bare_root_def empty_kvm_def root2_def
      is_tdp_mmu_root_def to_shadow_page_def sample_arch_def)

lemma sample_shape:
  "walk_cells sample_arch 1 bare_root (fault_walk_start sample_arch sample_mmu vcpu2 bare_root 5) 1 = [5]"
  "fresh_tables sample_arch (mmu_shadow_page_cache vcpu2) [5]"
  "walk_reaches sample_arch 1 bare_root (fault_walk_start sample_arch sample_mmu vcpu2 bare_root 5) 5 1
     = None"
proof -
  have f: "sptep (fault_walk_start sample_arch sample_mmu vcpu2 bare_root 5) = 5"
    "old_spte (fault_walk_start sample_arch sample_mmu vcpu2 bare_root 5) = 0"
    "level (fault_walk_start sample_arch sample_mmu vcpu2 bare_root 5) = 2"
    by code_simp+
  show "walk_cells sample_arch 1 bare_root (fault_walk_start sample_arch sample_mmu vcpu2 bare_root 5) 1 = [5]"
    unfolding One_nat_def by (simp add: f) (simp add: sample_arch_def)
  show "fresh_tables sample_arch (mmu_shadow_page_cache vcpu2) [5]"
    by (simp add: vcpu2_def sample_arch_def)
  show "walk_reaches sample_arch 1 bare_root (fault_walk_start sample_arch sample_mmu vcpu2 bare_root 5) 5 1
     = None"
    unfolding One_nat_def by (simp add: f) (simp add: sample_arch_def)
qed

subsection \<open>C4: a large leaf on the way is cleared and flushed first\<close>



subsection \<open>C10: a frame outside every memory slot\<close>




subsection \<open>C7: the same fault twice\<close>

text \<open>
  C7, as stated, fails: a fault on guest frame 5 for a frame outside every memory slot
  returns \<open>RET_PF_EMULATE\<close> the first time and \<open>RET_PF_EMULATE\<close> again the second time,
  neither 0 (installed) nor \<open>RET_PF_SPURIOUS\<close>.
\<close>

theorem noslot_fault_twice_needs_emulation_twice:
  "(case kvm_tdp_mmu_map sample_arch sample_mmu 5 vcpu2 bare_root 0x5000 2 1 1 (push_bit 40 1) False of
      Ret (r1, v1) s1 \<Rightarrow>
        r1 = RET_PF_EMULATE sample_mmu \<and> r1 \<noteq> 0 \<and>
        (case kvm_tdp_mmu_map sample_arch sample_mmu 5 v1 s1 0x5000 2 1 1 (push_bit 40 1) False of
           Ret (r2, v2) s2 \<Rightarrow> r2 = RET_PF_EMULATE sample_mmu \<and> r2 \<noteq> RET_PF_SPURIOUS sample_mmu
         | Crash s2 \<Rightarrow> False
         | Timeout \<Rightarrow> False)
    | Crash s1 \<Rightarrow> False
    | Timeout \<Rightarrow> False)"
  by code_simp

text \<open>
  C7, amended. For a fault whose frame, after the huge page adjustment, lies in a memory
  slot, of a vcpu whose root is a valid TDP MMU root, where \<open>make_spte\<close> builds, for the
  target entry, a present entry that is not special, without write protection, and builds
  the same entry again over its own result; and where the target entry, if the tree
  already leads to it, is not present: the first call returns 0, the value \<open>ret\<close> has
  when the entry was installed, and leaves a tree in which the walk for the guest frame
  leads to the new entry; the second call with the same arguments returns
  \<open>RET_PF_SPURIOUS\<close> and changes nothing but the counter \<open>pf_fixed\<close>. The assumptions on
  the codec, on the caches and on the shape of the tree are those of C10.
\<close>

theorem same_fault_twice:
  assumes c0: "\<not> is_shadow_present_pte a 0"
    and cN: "0 < PT64_ENT_PER_PAGE a"
    and c_last: "\<forall>pte l. lvl < l \<longrightarrow> is_shadow_present_pte a pte \<longrightarrow>
                    is_last_spte a pte l = is_large_pte a pte"
    and nl: "\<forall>t \<in> set (mmu_shadow_page_cache vcpu).
            is_shadow_present_pte a (make_nonleaf_spte m t (shadow_accessed_mask m = 0)) \<and>
            \<not> is_large_pte a (make_nonleaf_spte m t (shadow_accessed_mask m = 0)) \<and>
            (\<forall>l. lvl < l \<longrightarrow>
               spte_to_child_pt a (make_nonleaf_spte m t (shadow_accessed_mask m = 0)) l = t)"
    and root: "VALID_PAGE m (root_hpa vcpu)" "is_tdp_mmu_root m s (root_hpa vcpu)"
    and g: "g = drop_bit (PAGE_SHIFT m) gpa" "g + 1 \<noteq> 0"
    and adj: "kvm_mmu_hugepage_adjust m g max_level pfn
                (error_code AND PFERR_FETCH_MASK m \<noteq> 0 \<and> is_nx_huge_page_enabled m) = (lvl, pfn')"
    and slot: "\<not> is_noslot_pfn m pfn'"
    and nx: "is_nx_huge_page_enabled m \<longrightarrow>
               (\<forall>spte l. disallowed_hugepage_adjust m spte g l pfn' lvl = (pfn', lvl))"
    and mk: "\<forall>old. (case make_spte m (ACC_ALL a) lvl (round_gfn_for_level a g lvl) pfn' old prefault
                             True map_writable (shadow_accessed_mask m = 0) of
               (ret, new) \<Rightarrow> ret AND SET_SPTE_WRITE_PROTECTED_PT m = 0 \<and> \<not> is_mmio_spte a new \<and>
                   is_shadow_present_pte a new \<and>
                   snd (make_spte m (ACC_ALL a) lvl (round_gfn_for_level a g lvl) pfn' new prefault
                          True map_writable (shadow_accessed_mask m = 0)) = new)"
    and lv: "PG_LEVEL_4K a \<le> lvl" "lvl \<le> shadow_root_level vcpu"
    and n: "n = nat (shadow_root_level vcpu - lvl)"
    and caches: "n \<le> length (mmu_page_header_cache vcpu)" "n \<le> length (mmu_shadow_page_cache vcpu)"
    and shape: "distinct (walk_cells a n s (fault_walk_start a m vcpu s g) lvl)"
      "fresh_tables a (mmu_shadow_page_cache vcpu) (walk_cells a n s (fault_walk_start a m vcpu s g) lvl)"
    and unmapped: "\<forall>itT. walk_reaches a n s (fault_walk_start a m vcpu s g) g lvl = Some itT \<longrightarrow>
                      \<not> is_shadow_present_pte a (old_spte itT)"
    and fuel: "n < fuel" "n < fuel2"
  shows "\<exists>v1 s1 it2.
           kvm_tdp_mmu_map a m fuel vcpu s gpa error_code map_writable max_level pfn prefault
             = Ret (0, v1) s1 \<and>
           walk_reaches a n s1 (fault_walk_start a m v1 s1 g) g lvl = Some it2 \<and>
           old_spte it2 = snd (make_spte m (ACC_ALL a) lvl (round_gfn_for_level a g lvl) pfn'
                                 (old_spte it2) prefault True map_writable (shadow_accessed_mask m = 0)) \<and>
           is_shadow_present_pte a (old_spte it2) \<and>
           kvm_tdp_mmu_map a m fuel2 v1 s1 gpa error_code map_writable max_level pfn prefault
             = Ret (RET_PF_SPURIOUS m,
                    if \<not> prefault then v1\<lparr> pf_fixed := pf_fixed v1 + 1 \<rparr> else v1) s1"
proof -
  let ?w = "error_code AND PFERR_WRITE_MASK m \<noteq> 0"
  let ?gT = "round_gfn_for_level a g lvl"
  from fault_walk_from_root [OF c0 cN c_last nx g(2) nl lv n caches shape fuel(1), of ?w map_writable prefault]
  obtain f' vcpu' s0 itT where
      r1: "map_loop a m fuel vcpu s (fault_walk_start a m vcpu s g) g pfn' lvl ?w map_writable prefault
              = map_finish a m f' vcpu' s0 itT pfn' lvl ?w map_writable prefault"
      and r2: "level itT = lvl" "gfn itT = ?gT" "old_spte itT = mem s0 (sptep itT)"
      and r5: "old_spte itT = 0 \<or> walk_reaches a n s (fault_walk_start a m vcpu s g) g lvl = Some itT"
      and r6: "tdp_mmu_roots s0 = tdp_mmu_roots s" "root_hpa vcpu' = root_hpa vcpu"
        "shadow_root_level vcpu' = shadow_root_level vcpu"
      and r7: "\<forall>s'' v''. (\<forall>p. p \<noteq> sptep itT \<longrightarrow> mem s'' p = mem s0 p) \<and>
                 tdp_mmu_roots s'' = tdp_mmu_roots s \<and> root_hpa v'' = root_hpa vcpu \<and>
                 shadow_root_level v'' = shadow_root_level vcpu \<longrightarrow>
               (\<exists>it2. walk_reaches a n s'' (fault_walk_start a m v'' s'' g) g lvl = Some it2 \<and>
                      sptep it2 = sptep itT \<and> gfn it2 = gfn itT \<and>
                      old_spte it2 = mem s'' (sptep itT))"
    by blast
  have np: "\<not> is_shadow_present_pte a (old_spte itT)"
    using r5 c0 unmapped by auto
  obtain ret new where mk1: "make_spte m (ACC_ALL a) lvl ?gT pfn' (old_spte itT) prefault True
                              map_writable (shadow_accessed_mask m = 0) = (ret, new)"
    by (cases "make_spte m (ACC_ALL a) lvl ?gT pfn' (old_spte itT) prefault True
                              map_writable (shadow_accessed_mask m = 0)") auto
  with mk [rule_format, of "old_spte itT"] have
    p1: "ret AND SET_SPTE_WRITE_PROTECTED_PT m = 0" "\<not> is_mmio_spte a new"
      "is_shadow_present_pte a new"
    and idem: "snd (make_spte m (ACC_ALL a) lvl ?gT pfn' new prefault True map_writable
                      (shadow_accessed_mask m = 0)) = new"
    by simp_all
  have ne: "new \<noteq> old_spte itT" using p1(3) np by auto
  have mk1': "make_spte m (ACC_ALL a) (level itT) (gfn itT) pfn' (old_spte itT) prefault True
                map_writable (shadow_accessed_mask m = 0) = (ret, new)"
    using mk1 r2 by simp
  let ?v1 = "if \<not> prefault then vcpu'\<lparr> pf_fixed := pf_fixed vcpu' + 1 \<rparr> else vcpu'"
  from target_level_installs [OF slot mk1' p1(1,2) ne np, of f' vcpu' s0 ?w]
  obtain s1 where
    t1: "tdp_mmu_map_handle_target_level a m f' vcpu' s0 ?w map_writable itT pfn' prefault
           = Ret (0, ?v1) s1"
    and t2: "mem s1 = (mem s0)(sptep itT := new)" and t3: "tdp_mmu_roots s1 = tdp_mmu_roots s0"
    by blast
  have first: "kvm_tdp_mmu_map a m fuel vcpu s gpa error_code map_writable max_level pfn prefault
             = Ret (0, ?v1) s1"
    using root adj r1 r2(1) t1 g(1)
    by (simp add: kvm_tdp_mmu_map_def Let_def map_finish_def)
  have rs: "tdp_mmu_roots s1 = tdp_mmu_roots s" "root_hpa ?v1 = root_hpa vcpu"
    "shadow_root_level ?v1 = shadow_root_level vcpu"
    using t3 r6 by simp_all
  have "(\<forall>p. p \<noteq> sptep itT \<longrightarrow> mem s1 p = mem s0 p) \<and>
                 tdp_mmu_roots s1 = tdp_mmu_roots s \<and> root_hpa ?v1 = root_hpa vcpu \<and>
                 shadow_root_level ?v1 = shadow_root_level vcpu"
    using t2 rs by simp
  with r7 obtain it2 where
    w2: "walk_reaches a n s1 (fault_walk_start a m ?v1 s1 g) g lvl = Some it2"
    and i2: "sptep it2 = sptep itT" "gfn it2 = gfn itT" "old_spte it2 = mem s1 (sptep itT)"
    by blast
  from i2 t2 have o2: "old_spte it2 = new" by simp
  from walk_reaches_level [OF w2] have l2: "level it2 = lvl" .
  obtain ret2 where mk2: "make_spte m (ACC_ALL a) (level it2) (gfn it2) pfn' (old_spte it2) prefault
                True map_writable (shadow_accessed_mask m = 0) = (ret2, old_spte it2)"
    using idem o2 l2 i2(2) r2(2)
    by (cases "make_spte m (ACC_ALL a) lvl ?gT pfn' new prefault True map_writable
                      (shadow_accessed_mask m = 0)") auto
  with mk [rule_format, of new] o2 l2 i2(2) r2(2)
  have wp2: "ret2 AND SET_SPTE_WRITE_PROTECTED_PT m = 0" by simp
  have mm2: "\<not> is_mmio_spte a (old_spte it2)" using p1(2) o2 by simp
  from map_loop_follows_walk [OF nx w2 fuel(2), of ?v1 ?w map_writable prefault] obtain f2 where
    l: "map_loop a m fuel2 ?v1 s1 (fault_walk_start a m ?v1 s1 g) g pfn' lvl ?w map_writable prefault
        = map_finish a m f2 ?v1 s1 it2 pfn' lvl ?w map_writable prefault"
    by blast
  have second: "kvm_tdp_mmu_map a m fuel2 ?v1 s1 gpa error_code map_writable max_level pfn prefault
             = Ret (RET_PF_SPURIOUS m,
                    if \<not> prefault then ?v1\<lparr> pf_fixed := pf_fixed ?v1 + 1 \<rparr> else ?v1) s1"
    using root adj g(1) l l2 target_level_spurious [OF slot mk2 wp2 mm2, of f2 ?v1 s1 ?w]
      is_tdp_mmu_root_cong [OF rs(1), of m "root_hpa vcpu"] rs(2)
    by (simp add: kvm_tdp_mmu_map_def Let_def map_finish_def)
  have st: "old_spte it2 = snd (make_spte m (ACC_ALL a) lvl ?gT pfn'
                                 (old_spte it2) prefault True map_writable (shadow_accessed_mask m = 0))"
    using idem o2 by simp
  show ?thesis
    using first w2 st p1(3) o2 second
    by (intro exI [of _ ?v1] exI [of _ s1] exI [of _ it2]) simp
qed

text \<open>
  C7, amended, at a concrete input: the fault on guest frame 5 of the bare root for the
  frame \<open>0x77\<close> returns 0 and links a new table; the second call finds the leaf and
  returns \<open>RET_PF_SPURIOUS\<close>.
\<close>

theorem same_fault_twice_witness:
  "\<exists>v1 s1 it2.
     kvm_tdp_mmu_map sample_arch sample_mmu 5 vcpu2 bare_root 0x5000 2 1 1 0x77 False = Ret (0, v1) s1 \<and>
     walk_reaches sample_arch 1 s1 (fault_walk_start sample_arch sample_mmu v1 s1 5) 5 1 = Some it2 \<and>
     old_spte it2 = 0x77003 \<and>
     kvm_tdp_mmu_map sample_arch sample_mmu 5 v1 s1 0x5000 2 1 1 0x77 False
       = Ret (RET_PF_SPURIOUS sample_mmu, v1\<lparr> pf_fixed := pf_fixed v1 + 1 \<rparr>) s1"
proof -
  have g: "(5 :: u64) = drop_bit (PAGE_SHIFT sample_mmu) 0x5000" "(5 :: u64) + 1 \<noteq> 0"
    by (simp_all add: sample_root)
  have adj: "kvm_mmu_hugepage_adjust sample_mmu 5 1 0x77
                ((2 :: 32 word) AND PFERR_FETCH_MASK sample_mmu \<noteq> 0 \<and> is_nx_huge_page_enabled sample_mmu)
              = (1, 0x77)"
    by (simp add: sample_mmu_def)
  have slot: "\<not> is_noslot_pfn sample_mmu 0x77" by (simp add: sample_mmu_def)
  have nx: "is_nx_huge_page_enabled sample_mmu \<longrightarrow>
               (\<forall>spte l. disallowed_hugepage_adjust sample_mmu spte 5 l 0x77 1 = (0x77, 1))"
    by (simp add: sample_mmu_def)
  have new: "make_spte sample_mmu (ACC_ALL sample_arch) 1 (round_gfn_for_level sample_arch 5 1) 0x77 old
               False True 1 (shadow_accessed_mask sample_mmu = 0) = (0, 0x77003)" for old
    by (simp add: sample_mmu_def)
  have pn: "\<not> is_mmio_spte sample_arch 0x77003" "is_shadow_present_pte sample_arch 0x77003"
    by code_simp+
  have mk: "\<forall>old. (case make_spte sample_mmu (ACC_ALL sample_arch) 1 (round_gfn_for_level sample_arch 5 1)
                          0x77 old False True 1 (shadow_accessed_mask sample_mmu = 0) of
               (ret, new) \<Rightarrow> ret AND SET_SPTE_WRITE_PROTECTED_PT sample_mmu = 0 \<and>
                   \<not> is_mmio_spte sample_arch new \<and> is_shadow_present_pte sample_arch new \<and>
                   snd (make_spte sample_mmu (ACC_ALL sample_arch) 1 (round_gfn_for_level sample_arch 5 1)
                          0x77 new False True 1 (shadow_accessed_mask sample_mmu = 0)) = new)"
    by (simp add: new pn)
  have sh: "distinct (walk_cells sample_arch 1 bare_root
                        (fault_walk_start sample_arch sample_mmu vcpu2 bare_root 5) 1)"
    "fresh_tables sample_arch (mmu_shadow_page_cache vcpu2)
       (walk_cells sample_arch 1 bare_root (fault_walk_start sample_arch sample_mmu vcpu2 bare_root 5) 1)"
    unfolding sample_shape(1) by (simp_all add: sample_shape(2))
  have un: "\<forall>itT. walk_reaches sample_arch 1 bare_root
                    (fault_walk_start sample_arch sample_mmu vcpu2 bare_root 5) 5 1 = Some itT \<longrightarrow>
                  \<not> is_shadow_present_pte sample_arch (old_spte itT)"
    unfolding sample_shape(3) by simp
  have f: "(1 :: nat) < 5" by simp
  from same_fault_twice [OF sample_codec(1,2,3) sample_links sample_root(1,2) g adj slot nx mk
         sample_root(4,5,6,7,8) sh un f f]
  obtain v1 s1 it2 where
    c: "kvm_tdp_mmu_map sample_arch sample_mmu 5 vcpu2 bare_root 0x5000 2 1 1 0x77 False = Ret (0, v1) s1"
      "walk_reaches sample_arch 1 s1 (fault_walk_start sample_arch sample_mmu v1 s1 5) 5 1 = Some it2"
    and d: "old_spte it2 = snd (make_spte sample_mmu (ACC_ALL sample_arch) 1
               (round_gfn_for_level sample_arch 5 1) 0x77 (old_spte it2) False True 1
               (shadow_accessed_mask sample_mmu = 0))"
    and e: "kvm_tdp_mmu_map sample_arch sample_mmu 5 v1 s1 0x5000 2 1 1 0x77 False
       = Ret (RET_PF_SPURIOUS sample_mmu, if \<not> False then v1\<lparr> pf_fixed := pf_fixed v1 + 1 \<rparr> else v1) s1"
    by blast
  from d have "old_spte it2 = 0x77003" by (simp add: new)
  moreover from e have "kvm_tdp_mmu_map sample_arch sample_mmu 5 v1 s1 0x5000 2 1 1 0x77 False
       = Ret (RET_PF_SPURIOUS sample_mmu, v1\<lparr> pf_fixed := pf_fixed v1 + 1 \<rparr>) s1" by simp
  ultimately show ?thesis using c by blast
qed

end
